theory Spec2Isabelle
  imports Complex_Main
begin


text \<open>
  A shallow embedding of the script compiler and the tick-driven virtual machine of
  \<^verbatim>\<open>src/engine.js\<close> (classes \<^verbatim>\<open>Compiler\<close> and \<^verbatim>\<open>VM\<close>), and the verification of
  properties of its compiled programs, its scheduler and its expression evaluator.
\<close>

section \<open>JavaScript values\<close>

text \<open>
  The program is JavaScript; the model keeps its control flow and represents what it computes
  with as follows.
  \<^item> A number is a double in the source. Here a finite number is a real, and \<open>NaN\<close> and the
    two infinities are values of their own. Arithmetic on finite numbers is exact: rounding,
    overflow and the sign of zero are not modelled. The special values follow IEEE 754 as
    JavaScript does: a comparison with \<open>NaN\<close> is false, \<open>x / 0\<close> is an infinity or \<open>NaN\<close>.
  \<^item> A value is \<open>undefined\<close>, \<open>null\<close>, a boolean, a number or a string. Objects and functions
    are not modelled: an expression of a script is taken to evaluate to a primitive value.
  \<^item> A string is a list of characters, read as code units below 256.
  \<^item> An exception is a value: a function of the source that may throw returns a
    \<open>completion\<close>, \<open>Throw\<close> carrying the error.
\<close>

datatype jsnum = Fin real | NaN | PosInf | NegInf

datatype jsval = VUndefined | VNull | VBool bool | VNum jsnum | VStr string

datatype js_error = TypeError_undefined string | SyntaxError | ReferenceError | OtherError

datatype 'a completion = Normal 'a | Throw js_error

text \<open>
  The builtins of the language that the program calls and that have no closed description here
  are taken as parameters, collected in a record. Every theorem below that mentions a host
  \<open>H\<close> holds for all hosts.
  \<^item> \<open>js_eval\<close>: the builtin \<^verbatim>\<open>eval\<close> applied to the text \<^verbatim>\<open>VM.eval\<close> has built; \<open>Throw\<close> when it
    throws (a syntax error, an unresolved identifier). It is taken to be a function of the text
    alone, without side effects, which holds for the arithmetic, relational and logical
    expressions of the script language.
  \<^item> \<open>number_to_string\<close>: the conversion of a number to a string that
    \<^verbatim>\<open>String.prototype.replace\<close> applies to a replacement value.
  \<^item> \<open>string_to_number\<close>: the conversion of a string to a number (as \<^verbatim>\<open>Math.max\<close> applies it
    to its arguments); \<open>parse_float\<close>: the builtin \<^verbatim>\<open>parseFloat\<close>.
  \<^item> \<open>regexp_replace pat rep s\<close>: \<^verbatim>\<open>s.replace(new RegExp(pat, "g"), rep)\<close> in general. The
    model computes the replacement itself where the pattern is \<^verbatim>\<open>\b\<close>, a literal text,
    \<^verbatim>\<open>\b\<close> and the replacement text has no \<^verbatim>\<open>$\<close>; only the other cases (a variable name with
    a character of the pattern syntax, where the constructor may throw, or a replacement text
    with \<^verbatim>\<open>$\<close>) go to the host.
  \<^item> \<open>error_message\<close>: the \<^verbatim>\<open>message\<close> of an error, whose wording is the engine's.
\<close>

record host =
  js_eval :: "string \<Rightarrow> jsval completion"
  number_to_string :: "jsnum \<Rightarrow> string"
  string_to_number :: "string \<Rightarrow> jsnum"
  parse_float :: "string \<Rightarrow> jsnum"
  regexp_replace :: "string \<Rightarrow> string \<Rightarrow> string \<Rightarrow> string completion"
  error_message :: "js_error \<Rightarrow> string"

text \<open>
  \<open>num_gt a b\<close> is \<^verbatim>\<open>a > b\<close>; \<open>num_max\<close> and \<open>num_min\<close> are \<^verbatim>\<open>Math.max\<close> and \<^verbatim>\<open>Math.min\<close> on
  two numbers; \<open>truthy\<close> is the conversion to a boolean that a condition applies; \<open>to_number\<close>
  and \<open>to_string\<close> are the conversions of a value to a number and to a string.
\<close>

fun num_gt :: "jsnum \<Rightarrow> jsnum \<Rightarrow> bool" where
  "num_gt (Fin x) (Fin y) = (y < x)"
| "num_gt NaN _ = False"
| "num_gt _ NaN = False"
| "num_gt PosInf PosInf = False"
| "num_gt PosInf _ = True"
| "num_gt _ PosInf = False"
| "num_gt NegInf _ = False"
| "num_gt _ NegInf = True"

fun num_neg :: "jsnum \<Rightarrow> jsnum" where
  "num_neg (Fin x) = Fin (- x)"
| "num_neg NaN = NaN"
| "num_neg PosInf = NegInf"
| "num_neg NegInf = PosInf"

fun num_add :: "jsnum \<Rightarrow> jsnum \<Rightarrow> jsnum" where
  "num_add (Fin x) (Fin y) = Fin (x + y)"
| "num_add NaN _ = NaN"
| "num_add _ NaN = NaN"
| "num_add PosInf NegInf = NaN"
| "num_add NegInf PosInf = NaN"
| "num_add PosInf _ = PosInf"
| "num_add NegInf _ = NegInf"
| "num_add _ PosInf = PosInf"
| "num_add _ NegInf = NegInf"

definition num_sub :: "jsnum \<Rightarrow> jsnum \<Rightarrow> jsnum" where
  "num_sub a b = num_add a (num_neg b)"

fun num_sign :: "jsnum \<Rightarrow> real" where
  "num_sign (Fin x) = sgn x"
| "num_sign PosInf = 1"
| "num_sign NegInf = - 1"
| "num_sign NaN = 0"

definition signed_inf :: "real \<Rightarrow> jsnum" where
  "signed_inf s = (if s = 0 then NaN else if 0 < s then PosInf else NegInf)"

fun num_mul :: "jsnum \<Rightarrow> jsnum \<Rightarrow> jsnum" where
  "num_mul (Fin x) (Fin y) = Fin (x * y)"
| "num_mul NaN _ = NaN"
| "num_mul _ NaN = NaN"
| "num_mul a b = signed_inf (num_sign a * num_sign b)"

fun num_div :: "jsnum \<Rightarrow> jsnum \<Rightarrow> jsnum" where
  "num_div (Fin x) (Fin y) = (if y = 0 then signed_inf x else Fin (x / y))"
| "num_div NaN _ = NaN"
| "num_div _ NaN = NaN"
| "num_div (Fin x) _ = Fin 0"
| "num_div a (Fin y) = signed_inf (num_sign a * (if y < 0 then - 1 else 1))"
| "num_div _ _ = NaN"

fun num_max :: "jsnum \<Rightarrow> jsnum \<Rightarrow> jsnum" where
  "num_max NaN _ = NaN"
| "num_max _ NaN = NaN"
| "num_max a b = (if num_gt b a then b else a)"

fun num_min :: "jsnum \<Rightarrow> jsnum \<Rightarrow> jsnum" where
  "num_min NaN _ = NaN"
| "num_min _ NaN = NaN"
| "num_min a b = (if num_gt a b then b else a)"

fun truthy :: "jsval \<Rightarrow> bool" where
  "truthy VUndefined = False"
| "truthy VNull = False"
| "truthy (VBool b) = b"
| "truthy (VNum n) = (n \<noteq> NaN \<and> n \<noteq> Fin 0)"
| "truthy (VStr s) = (s \<noteq> [])"

fun to_number :: "host \<Rightarrow> jsval \<Rightarrow> jsnum" where
  "to_number H VUndefined = NaN"
| "to_number H VNull = Fin 0"
| "to_number H (VBool b) = (if b then Fin 1 else Fin 0)"
| "to_number H (VNum n) = n"
| "to_number H (VStr s) = string_to_number H s"

fun to_string :: "host \<Rightarrow> jsval \<Rightarrow> string" where
  "to_string H VUndefined = ''undefined''"
| "to_string H VNull = ''null''"
| "to_string H (VBool b) = (if b then ''true'' else ''false'')"
| "to_string H (VNum n) = number_to_string H n"
| "to_string H (VStr s) = s"

section \<open>Lexer\<close>

text \<open>
  \<^verbatim>\<open>Compiler.tokenize\<close>. \<open>strip_comments\<close> is the replacement of \<^verbatim>\<open>/\/\/.*/g\<close> by the empty
  string: from \<^verbatim>\<open>//\<close> up to, and without, the next line terminator; its first argument tells
  whether the scan is inside a comment. \<open>match_all\<close> is \<^verbatim>\<open>src.match(regex)\<close> for the global
  regular expression
  \<^verbatim>\<open>([a-zA-Z0-9_:]+|"[^"]*"|[-+*/=<>!]+|\{|\}|\(|\)|,|\.)\<close>: at each position the alternatives
  start with different characters, each is greedy, and a position where none matches (also a
  double quote with no closing quote after it) is passed over. There is no alternative for a
  decimal literal: \<^verbatim>\<open>3.7\<close> gives the three tokens \<^verbatim>\<open>3\<close>, \<^verbatim>\<open>.\<close>, \<^verbatim>\<open>7\<close>.
\<close>

datatype token_type = KEYWORD | ATOM

record token =
  ttype :: token_type
  val :: string

definition line_terminator :: "char \<Rightarrow> bool" where
  "line_terminator c = (c = CHR 0x0A \<or> c = CHR 0x0D)"

fun strip_comments :: "bool \<Rightarrow> string \<Rightarrow> string" where
  "strip_comments in_comment [] = []"
| "strip_comments True (c # cs) =
     (if line_terminator c then c # strip_comments False cs else strip_comments True cs)"
| "strip_comments False [c] = [c]"
| "strip_comments False (c # d # cs) =
     (if c = CHR ''/'' \<and> d = CHR ''/'' then strip_comments True cs
      else c # strip_comments False (d # cs))"

definition word_char :: "char \<Rightarrow> bool" where
  "word_char c = (c \<in> set ''abcdefghijklmnopqrstuvwxyzABCDEFGHIJKLMNOPQRSTUVWXYZ0123456789_'')"

definition ident_char :: "char \<Rightarrow> bool" where
  "ident_char c = (word_char c \<or> c = CHR '':'')"

definition op_char :: "char \<Rightarrow> bool" where
  "op_char c = (c \<in> set ''-+*/=<>!'')"

definition punct_char :: "char \<Rightarrow> bool" where
  "punct_char c = (c \<in> set ''{}(),.'')"

definition dquote :: char where
  "dquote = CHR 0x22"

function match_all :: "string \<Rightarrow> string list" where
  "match_all [] = []"
| "match_all (c # cs) =
     (if ident_char c then (c # takeWhile ident_char cs) # match_all (dropWhile ident_char cs)
      else if c = dquote then
        (case dropWhile (\<lambda>x. x \<noteq> dquote) cs of
           [] \<Rightarrow> match_all cs
         | q # rest \<Rightarrow> (c # takeWhile (\<lambda>x. x \<noteq> dquote) cs @ [q]) # match_all rest)
      else if op_char c then (c # takeWhile op_char cs) # match_all (dropWhile op_char cs)
      else if punct_char c then [c] # match_all cs
      else match_all cs)"
  by pat_completeness auto

lemma length_dropWhile_tl: "dropWhile P cs = q # rest \<Longrightarrow> length rest < Suc (length cs)"
  using length_dropWhile_le [of P cs] by simp

termination match_all
  by (relation "measure length")
     (auto simp: length_dropWhile_le less_Suc_eq_le dest: length_dropWhile_tl)

definition keyword_list :: "string list" where
  "keyword_list = [''PRINT'', ''WAIT'', ''LOCK'', ''TO'', ''STAGE'', ''CLEARSCREEN'', ''IF'',
     ''ELSE'', ''UNTIL'', ''AT'', ''DECLARE'', ''PARAMETER'', ''SET'']"

definition mk_token :: "string \<Rightarrow> token" where
  "mk_token v = \<lparr>ttype = (if v \<in> set keyword_list then KEYWORD else ATOM), val = v\<rparr>"

definition tokenize :: "string \<Rightarrow> token list" where
  "tokenize src = map mk_token (match_all (strip_comments False src))"


section \<open>Compiler\<close>

text \<open>
  \<^verbatim>\<open>Compiler.compile\<close>. An instruction object \<^verbatim>\<open>{op, ...}\<close> is a value of \<open>instr\<close>, the
  constructor being the \<^verbatim>\<open>op\<close>; a jump carries its \<^verbatim>\<open>dest\<close> as an integer, \<open>-1\<close> being the
  placeholder of a destination not yet known. An entry \<^verbatim>\<open>{type, idx, start}\<close> of the
  compiler's block stack is a value of \<open>block\<close>. The state of the loop is a \<open>cstate\<close>: the index
  \<^verbatim>\<open>i\<close>, the \<^verbatim>\<open>instructions\<close> emitted so far, the \<^verbatim>\<open>stack\<close> (its top is the head of the
  list) and \<^verbatim>\<open>lastClosedIf\<close> (\<open>None\<close> for \<^verbatim>\<open>null\<close>).

  \<open>patch idx d\<close> is the assignment \<^verbatim>\<open>instructions[idx].dest = d\<close>; the index of a block entry
  always addresses an instruction emitted when the entry was pushed. \<open>gather\<close> is the local
  function \<^verbatim>\<open>gather\<close>: the values of the tokens from \<^verbatim>\<open>idx\<close> up to the first \<^verbatim>\<open>{\<close>, \<^verbatim>\<open>.\<close> or
  \<^verbatim>\<open>AT\<close>, or up to the end, and the index where it stopped. \<open>token_at\<close> is \<^verbatim>\<open>tokens[i]\<close>
  (\<open>None\<close> for \<^verbatim>\<open>undefined\<close>), and \<open>val_at\<close> is \<^verbatim>\<open>tokens[i].val\<close>, which throws a type error
  when the token is undefined: the only error the compiler can raise.

  \<open>compile_stmt\<close> is the chain of \<^verbatim>\<open>if\<close>/\<^verbatim>\<open>else if\<close> on the keyword, \<open>compile_step\<close> the body of
  the \<^verbatim>\<open>for\<close> loop with its \<^verbatim>\<open>continue\<close>, and \<open>compile_loop\<close> the loop itself, whose \<^verbatim>\<open>i++\<close>
  follows every iteration. The index never decreases in an iteration, which is the termination
  argument.
\<close>

datatype instr =
    PRINT "string list" "(string \<times> string) option"
  | LOCK string "string list"
  | SET_VAR string "string list"
  | WAIT jsnum
  | YIELD
  | STAGE
  | CLEAR
  | JMP int
  | JMP_TRUE int "string list"
  | JMP_FALSE int "string list"

datatype block = IF_block nat | ELSE_block nat | UNTIL_block nat nat

fun block_idx :: "block \<Rightarrow> nat" where
  "block_idx (IF_block idx) = idx"
| "block_idx (ELSE_block idx) = idx"
| "block_idx (UNTIL_block idx start) = idx"

record cstate =
  ci :: nat
  instrs :: "instr list"
  stack :: "block list"
  lastClosedIf :: "block option"

fun set_dest :: "int \<Rightarrow> instr \<Rightarrow> instr" where
  "set_dest d (JMP _) = JMP d"
| "set_dest d (JMP_TRUE _ e) = JMP_TRUE d e"
| "set_dest d (JMP_FALSE _ e) = JMP_FALSE d e"
| "set_dest d other = other"

definition patch :: "nat \<Rightarrow> int \<Rightarrow> instr list \<Rightarrow> instr list" where
  "patch idx d ins = ins[idx := set_dest d (ins ! idx)]"

definition stoppers :: "string list" where
  "stoppers = [''{'', ''.'', ''AT'']"

fun gather_from :: "token list \<Rightarrow> string list" where
  "gather_from [] = []"
| "gather_from (t # ts) = (if val t \<in> set stoppers then [] else val t # gather_from ts)"

definition gather :: "token list \<Rightarrow> nat \<Rightarrow> string list \<times> nat" where
  "gather tokens idx = (let sub = gather_from (drop idx tokens) in (sub, idx + length sub))"

definition token_at :: "token list \<Rightarrow> nat \<Rightarrow> token option" where
  "token_at tokens i = (if i < length tokens then Some (tokens ! i) else None)"

definition val_at :: "token list \<Rightarrow> nat \<Rightarrow> string completion" where
  "val_at tokens i =
     (case token_at tokens i of None \<Rightarrow> Throw (TypeError_undefined ''val'') | Some t \<Rightarrow> Normal (val t))"

definition emit :: "instr list \<Rightarrow> cstate \<Rightarrow> cstate" where
  "emit new st = st\<lparr>instrs := instrs st @ new\<rparr>"

definition close_block :: "cstate \<Rightarrow> cstate" where
  "close_block st =
     (case stack st of
        [] \<Rightarrow> st
      | info # below \<Rightarrow>
          (let st1 = st\<lparr>stack := below\<rparr> in
           case info of
             UNTIL_block idx start \<Rightarrow>
               (let ins = instrs st1 @ [YIELD, JMP (int start)] in
                st1\<lparr>instrs := patch idx (int (length ins)) ins\<rparr>)
           | IF_block idx \<Rightarrow>
               st1\<lparr>instrs := patch idx (int (length (instrs st1))) (instrs st1),
                   lastClosedIf := Some info\<rparr>
           | ELSE_block idx \<Rightarrow>
               st1\<lparr>instrs := patch idx (int (length (instrs st1))) (instrs st1)\<rparr>))"

definition compile_stmt :: "host \<Rightarrow> token list \<Rightarrow> token \<Rightarrow> cstate \<Rightarrow> cstate completion" where
  "compile_stmt H tokens t st =
     (let i = ci st in
      if val t = ''PRINT'' then
        (let (sub, e) = gather tokens (i + 1) in
         case token_at tokens e of
           Some a \<Rightarrow>
             if val a = ''AT'' then
               (case val_at tokens (e + 2) of
                  Throw err \<Rightarrow> Throw err
                | Normal x \<Rightarrow>
                    (case val_at tokens (e + 4) of
                       Throw err \<Rightarrow> Throw err
                     | Normal y \<Rightarrow> Normal (emit [PRINT sub (Some (x, y))] (st\<lparr>ci := e + 5\<rparr>))))
             else Normal (emit [PRINT sub None] (st\<lparr>ci := e\<rparr>))
         | None \<Rightarrow> Normal (emit [PRINT sub None] (st\<lparr>ci := e\<rparr>)))
      else if val t = ''LOCK'' then
        (case val_at tokens (i + 1) of
           Throw err \<Rightarrow> Throw err
         | Normal target \<Rightarrow>
             (let (sub, e) = gather tokens (i + 3) in
              Normal (emit [LOCK target sub] (st\<lparr>ci := e\<rparr>))))
      else if val t = ''SET'' then
        (case val_at tokens (i + 1) of
           Throw err \<Rightarrow> Throw err
         | Normal target \<Rightarrow>
             (let (sub, e) = gather tokens (i + 3) in
              Normal (emit [SET_VAR target sub] (st\<lparr>ci := e\<rparr>))))
      else if val t = ''DECLARE'' then
        (case token_at tokens (i + 1) of
           Some p \<Rightarrow>
             if val p = ''PARAMETER'' then
               (case val_at tokens (i + 2) of
                  Throw err \<Rightarrow> Throw err
                | Normal param \<Rightarrow> Normal (emit [SET_VAR param [''0'']] (st\<lparr>ci := i + 2\<rparr>)))
             else Normal st
         | None \<Rightarrow> Normal st)
      else if val t = ''WAIT'' then
        (case val_at tokens (i + 1) of
           Throw err \<Rightarrow> Throw err
         | Normal v \<Rightarrow>
             if v = ''UNTIL'' then
               (let startPc = length (instrs st);
                    (sub, e) = gather tokens (i + 2) in
                Normal (emit [JMP_TRUE (int startPc + 3) sub, YIELD, JMP (int startPc)]
                          (st\<lparr>ci := e\<rparr>)))
             else Normal (emit [WAIT (parse_float H v)] (st\<lparr>ci := i + 1\<rparr>)))
      else if val t = ''STAGE'' then Normal (emit [STAGE] st)
      else if val t = ''CLEARSCREEN'' then Normal (emit [CLEAR] st)
      else if val t = ''IF'' then
        (let (sub, e) = gather tokens (i + 1);
             idx = length (instrs st) in
         Normal ((emit [JMP_FALSE (- 1) sub] (st\<lparr>ci := e\<rparr>))
                   \<lparr>stack := IF_block idx # stack st\<rparr>))
      else if val t = ''ELSE'' then
        (case lastClosedIf st of
           Some cif \<Rightarrow>
             (let jmpIdx = length (instrs st);
                  ins = instrs st @ [JMP (- 1)] in
              Normal (st\<lparr>ci := i + 1,
                         instrs := patch (block_idx cif) (int (length ins)) ins,
                         stack := ELSE_block jmpIdx # stack st,
                         lastClosedIf := None\<rparr>))
         | None \<Rightarrow> Normal (st\<lparr>ci := i + 1\<rparr>))
      else if val t = ''UNTIL'' then
        (let start = length (instrs st);
             (sub, e) = gather tokens (i + 1);
             idx = length (instrs st) in
         Normal ((emit [JMP_TRUE (- 1) sub] (st\<lparr>ci := e\<rparr>))
                   \<lparr>stack := UNTIL_block idx start # stack st\<rparr>))
      else if val t = ''}'' then Normal (close_block st)
      else Normal st)"

definition compile_step :: "host \<Rightarrow> token list \<Rightarrow> cstate \<Rightarrow> cstate completion" where
  "compile_step H tokens st =
     (let t = tokens ! ci st in
      if ttype t \<noteq> KEYWORD \<and> val t \<noteq> ''}'' then Normal st
      else compile_stmt H tokens t st)"

lemma gather_end_ge: "gather tokens idx = (sub, e) \<Longrightarrow> idx \<le> e"
  by (auto simp: gather_def Let_def)

lemma compile_stmt_ci_mono: "compile_stmt H tokens t st = Normal st' \<Longrightarrow> ci st \<le> ci st'"
  unfolding compile_stmt_def Let_def emit_def close_block_def val_at_def
  by (auto split: if_splits prod.splits option.splits completion.splits list.splits block.splits
           dest!: gather_end_ge)

lemma compile_step_ci_mono: "compile_step H tokens st = Normal st' \<Longrightarrow> ci st \<le> ci st'"
  unfolding compile_step_def Let_def
  by (auto split: if_splits dest: compile_stmt_ci_mono)

function compile_loop :: "host \<Rightarrow> token list \<Rightarrow> cstate \<Rightarrow> cstate completion" where
  "compile_loop H tokens st =
     (if ci st < length tokens then
        (case compile_step H tokens st of
           Throw err \<Rightarrow> Throw err
         | Normal st' \<Rightarrow> compile_loop H tokens (st'\<lparr>ci := ci st' + 1\<rparr>))
      else Normal st)"
  by pat_completeness auto

termination compile_loop
  by (relation "measure (\<lambda>(H, tokens, st). length tokens - ci st)")
     (auto dest: compile_step_ci_mono)

declare compile_loop.simps [simp del]

definition init_cstate :: cstate where
  "init_cstate = \<lparr>ci = 0, instrs = [], stack = [], lastClosedIf = None\<rparr>"

definition compile_state :: "host \<Rightarrow> string \<Rightarrow> cstate completion" where
  "compile_state H source = compile_loop H (tokenize source) init_cstate"

definition compile :: "host \<Rightarrow> string \<Rightarrow> instr list completion" where
  "compile H source =
     (case compile_state H source of Throw err \<Rightarrow> Throw err | Normal st \<Rightarrow> Normal (instrs st))"


section \<open>Virtual machine\<close>

text \<open>
  The class \<^verbatim>\<open>VM\<close>. The machine reads and writes the fields \<^verbatim>\<open>massDry\<close>, \<^verbatim>\<open>fuelStart\<close>,
  \<^verbatim>\<open>stages\<close>, \<^verbatim>\<open>fuel\<close>, \<^verbatim>\<open>throttle\<close> and \<^verbatim>\<open>steeringTarget\<close> of the physics object and calls
  its \<^verbatim>\<open>getOrbit()\<close>; the record \<open>physics\<close> holds these fields and, as the field \<open>getOrbit\<close>,
  the telemetry that the call returns (a function of position and velocity, which the machine
  never changes). The state of the machine is the record \<open>vm_state\<close>: the fields of the \<^verbatim>\<open>VM\<close>
  object, the physics object it refers to, and, as \<open>logged\<close>, the calls it has made to its log
  function, in order. The variable store \<^verbatim>\<open>vars\<close> is an association list in order of
  creation.
\<close>

record orbit =
  ap :: jsnum
  pe :: jsnum
  alt :: jsnum
  eta :: jsnum
  vel :: jsnum

record physics =
  massDry :: jsnum
  fuelStart :: jsnum
  stages :: jsnum
  fuel :: jsnum
  throttle :: jsnum
  steeringTarget :: jsval
  getOrbit :: orbit

datatype log_entry = Log jsval "string option" "(string \<times> string) option"

record vm_state =
  phys :: physics
  logged :: "log_entry list"
  instructions :: "instr list"
  pc :: int
  running :: bool
  waitTimer :: jsnum
  vars :: "(string \<times> jsval) list"

subsection \<open>String.prototype.replace with a global regular expression\<close>

text \<open>
  \<open>replace_all m\<close> scans a string from left to right. \<open>m prev s\<close> tells whether the regular
  expression matches at the start of \<open>s\<close>, the character before being \<open>prev\<close>, and gives the
  replacement and the length of the match; after a match the scan goes on behind it, otherwise
  one character further. All regular expressions of the program match at least one character.
  The second argument is the character before the position, the third the number of
  characters of a match still to pass over.
  \<^item> \<open>literal_match pat\<close>: a literal pattern, such as \<^verbatim>\<open>/ALTITUDE/g\<close>;
  \<^item> \<open>word_match key\<close>: \<^verbatim>\<open>\bkey\b\<close> for a literal \<open>key\<close>; a position is a word boundary when
    exactly one of the characters before and after it is a letter, a digit or an underscore;
  \<^item> \<open>heading_match\<close>: \<^verbatim>\<open>/HEADING\s*\(\s*(\d+)\s*,\s*(\d+)\s*\)/g\<close>, replaced by its second group;
  \<^item> \<open>round_match\<close>: \<^verbatim>\<open>/ROUND\(([^)]+)\)/g\<close>, replaced by \<^verbatim>\<open>Math.round($1)\<close>.
\<close>

fun replace_all :: "(char option \<Rightarrow> string \<Rightarrow> (string \<times> nat) option) \<Rightarrow> char option \<Rightarrow> nat \<Rightarrow> string \<Rightarrow> string" where
  "replace_all m prev skip [] = []"
| "replace_all m prev (Suc k) (c # cs) = replace_all m (Some c) k cs"
| "replace_all m prev 0 (c # cs) =
     (case m prev (c # cs) of
        Some (rep, n) \<Rightarrow> rep @ replace_all m (Some c) (n - 1) cs
      | None \<Rightarrow> c # replace_all m (Some c) 0 cs)"

definition starts_with :: "string \<Rightarrow> string \<Rightarrow> bool" where
  "starts_with pat s = (take (length pat) s = pat)"

definition literal_match :: "string \<Rightarrow> string \<Rightarrow> char option \<Rightarrow> string \<Rightarrow> (string \<times> nat) option" where
  "literal_match pat rep prev s =
     (if pat \<noteq> [] \<and> starts_with pat s then Some (rep, length pat) else None)"

definition replace_literal :: "string \<Rightarrow> string \<Rightarrow> string \<Rightarrow> string" where
  "replace_literal pat rep s = replace_all (literal_match pat rep) None 0 s"

definition is_word :: "char option \<Rightarrow> bool" where
  "is_word c = (case c of None \<Rightarrow> False | Some x \<Rightarrow> word_char x)"

definition char_at :: "string \<Rightarrow> nat \<Rightarrow> char option" where
  "char_at s n = (if n < length s then Some (s ! n) else None)"

definition word_match :: "string \<Rightarrow> string \<Rightarrow> char option \<Rightarrow> string \<Rightarrow> (string \<times> nat) option" where
  "word_match key rep prev s =
     (if key \<noteq> [] \<and> starts_with key s
         \<and> is_word prev \<noteq> word_char (hd key)
         \<and> word_char (last key) \<noteq> is_word (char_at s (length key))
      then Some (rep, length key) else None)"

definition replace_word :: "string \<Rightarrow> string \<Rightarrow> string \<Rightarrow> string" where
  "replace_word key rep s = replace_all (word_match key rep) None 0 s"

definition white_space :: "char \<Rightarrow> bool" where
  "white_space c = (c \<in> {CHR 0x09, CHR 0x0A, CHR 0x0B, CHR 0x0C, CHR 0x0D, CHR 0x20, CHR 0xA0})"

definition digit_char :: "char \<Rightarrow> bool" where
  "digit_char c = (c \<in> set ''0123456789'')"

definition strip_prefix :: "string \<Rightarrow> string \<Rightarrow> string option" where
  "strip_prefix pat s = (if starts_with pat s then Some (drop (length pat) s) else None)"

definition heading_match :: "char option \<Rightarrow> string \<Rightarrow> (string \<times> nat) option" where
  "heading_match prev s =
     (case strip_prefix ''HEADING'' s of
        None \<Rightarrow> None
      | Some r1 \<Rightarrow>
          (case dropWhile white_space r1 of
             [] \<Rightarrow> None
           | c1 # r2 \<Rightarrow>
               if c1 \<noteq> CHR ''('' then None
               else
                 (let r3 = dropWhile white_space r2;
                      g1 = takeWhile digit_char r3;
                      r4 = dropWhile white_space (dropWhile digit_char r3)
                  in if g1 = [] then None
                     else
                       (case r4 of
                          [] \<Rightarrow> None
                        | c2 # r5 \<Rightarrow>
                            if c2 \<noteq> CHR '','' then None
                            else
                              (let r6 = dropWhile white_space r5;
                                   g2 = takeWhile digit_char r6;
                                   r7 = dropWhile white_space (dropWhile digit_char r6)
                               in if g2 = [] then None
                                  else
                                    (case r7 of
                                       [] \<Rightarrow> None
                                     | c3 # rest \<Rightarrow>
                                         if c3 \<noteq> CHR '')'' then None
                                         else Some (g2, length s - length rest)))))))"

definition round_match :: "char option \<Rightarrow> string \<Rightarrow> (string \<times> nat) option" where
  "round_match prev s =
     (case strip_prefix ''ROUND('' s of
        None \<Rightarrow> None
      | Some r \<Rightarrow>
          (let g = takeWhile (\<lambda>c. c \<noteq> CHR '')'') r in
           if g \<noteq> [] \<and> length g < length r
           then Some (''Math.round('' @ g @ '')'', length ''ROUND('' + length g + 1)
           else None))"

subsection \<open>Variable store\<close>

text \<open>
  \<open>store\<close> is the assignment \<^verbatim>\<open>this.vars[target] = val\<close>: a new key is added after the others
  and an old one keeps its place; the key \<^verbatim>\<open>__proto__\<close> creates no property when the value is
  primitive. \<open>for_in\<close> is the order in which \<^verbatim>\<open>for (let key in this.vars)\<close> visits the keys:
  first the keys that are array indices, in ascending order, then the others in order of
  creation.
\<close>

fun set_var :: "string \<Rightarrow> jsval \<Rightarrow> (string \<times> jsval) list \<Rightarrow> (string \<times> jsval) list" where
  "set_var k v [] = [(k, v)]"
| "set_var k v ((k', v') # kvs) = (if k' = k then (k, v) # kvs else (k', v') # set_var k v kvs)"

definition store :: "string \<Rightarrow> jsval \<Rightarrow> (string \<times> jsval) list \<Rightarrow> (string \<times> jsval) list" where
  "store k v kvs = (if k = ''__proto__'' then kvs else set_var k v kvs)"

fun digits_value :: "nat \<Rightarrow> string \<Rightarrow> nat" where
  "digits_value acc [] = acc"
| "digits_value acc (c # cs) = digits_value (10 * acc + (of_char c - 48)) cs"

definition array_index :: "string \<Rightarrow> nat option" where
  "array_index k =
     (if k \<noteq> [] \<and> list_all digit_char k \<and> (hd k \<noteq> CHR ''0'' \<or> k = ''0'')
         \<and> digits_value 0 k < 2 ^ 32 - 1
      then Some (digits_value 0 k) else None)"

definition for_in :: "(string \<times> jsval) list \<Rightarrow> (string \<times> jsval) list" where
  "for_in kvs =
     sort_key (\<lambda>kv. the (array_index (fst kv))) (filter (\<lambda>kv. array_index (fst kv) \<noteq> None) kvs)
     @ filter (\<lambda>kv. array_index (fst kv) = None) kvs"

subsection \<open>Expression evaluator\<close>

text \<open>
  \<^verbatim>\<open>VM.eval\<close>. \<open>join\<close> is \<^verbatim>\<open>tokens.join(' ')\<close>. \<open>telemetry_text\<close> applies the eight
  replacements of the source in their order; \<open>replace_var\<close> is the replacement for one
  variable and \<open>replace_vars\<close> the loop over the variables; \<open>eval_text\<close> is the text that
  reaches the builtin \<^verbatim>\<open>eval\<close>. Only that call stands inside the \<^verbatim>\<open>try\<close>: \<open>vm_eval\<close> returns 0
  when it throws, and lets an error of the replacements through.
\<close>

fun join :: "string list \<Rightarrow> string" where
  "join [] = []"
| "join [t] = t"
| "join (t # ts) = t @ '' '' @ join ts"

definition regexp_syntax_char :: "char \<Rightarrow> bool" where
  "regexp_syntax_char c = (c \<in> {CHR ''^'', CHR ''$'', CHR 0x5C, CHR ''.'', CHR ''*'', CHR ''+'',
      CHR ''?'', CHR ''('', CHR '')'', CHR ''['', CHR '']'', CHR ''{'', CHR ''}'', CHR ''|''})"

definition replace_var :: "host \<Rightarrow> string \<Rightarrow> jsval \<Rightarrow> string \<Rightarrow> string completion" where
  "replace_var H key v s =
     (let rep = to_string H v in
      if key \<noteq> [] \<and> \<not> list_ex regexp_syntax_char key \<and> CHR ''$'' \<notin> set rep
      then Normal (replace_word key rep s)
      else regexp_replace H ([CHR 0x5C, CHR ''b''] @ key @ [CHR 0x5C, CHR ''b'']) rep s)"

fun replace_vars :: "host \<Rightarrow> (string \<times> jsval) list \<Rightarrow> string \<Rightarrow> string completion" where
  "replace_vars H [] s = Normal s"
| "replace_vars H ((key, v) # kvs) s =
     (case replace_var H key v s of
        Throw err \<Rightarrow> Throw err
      | Normal s' \<Rightarrow> replace_vars H kvs s')"

definition telemetry_text :: "host \<Rightarrow> physics \<Rightarrow> string \<Rightarrow> string" where
  "telemetry_text H p str0 =
     (let orb = getOrbit p;
          str1 = replace_all heading_match None 0 str0;
          str2 = replace_literal ''ALTITUDE'' (number_to_string H (alt orb)) str1;
          str3 = replace_literal ''APOAPSIS'' (number_to_string H (ap orb)) str2;
          str4 = replace_literal ''PERIAPSIS'' (number_to_string H (pe orb)) str3;
          str5 = replace_literal ''ETA:APOAPSIS'' (number_to_string H (eta orb)) str4;
          str6 = replace_literal ''FUEL'' (number_to_string H (num_div (fuel p) (fuelStart p))) str5;
          str7 = replace_literal ''THROTTLE'' (number_to_string H (throttle p)) str6
      in replace_all round_match None 0 str7)"

definition eval_text :: "host \<Rightarrow> vm_state \<Rightarrow> string list \<Rightarrow> string completion" where
  "eval_text H s tokens = replace_vars H (for_in (vars s)) (telemetry_text H (phys s) (join tokens))"

definition vm_eval :: "host \<Rightarrow> vm_state \<Rightarrow> string list \<Rightarrow> jsval completion" where
  "vm_eval H s tokens =
     (case eval_text H s tokens of
        Throw err \<Rightarrow> Throw err
      | Normal str \<Rightarrow>
          (case js_eval H str of
             Throw err \<Rightarrow> Normal (VNum (Fin 0))
           | Normal v \<Rightarrow> Normal v))"

subsection \<open>Scheduler\<close>

text \<open>
  \<^verbatim>\<open>VM.tick\<close> and \<^verbatim>\<open>VM.run\<close>. \<open>exec_instr\<close> is one iteration of the \<^verbatim>\<open>while\<close> loop for the
  instruction fetched: \<open>Break\<close> where the source leaves the loop, \<open>Continue\<close> where it goes on
  to \<^verbatim>\<open>steps++\<close>, \<open>Raise\<close> where an error leaves \<^verbatim>\<open>tick\<close>. \<open>fetch\<close> is
  \<^verbatim>\<open>this.instructions[this.pc]\<close>; a negative \<^verbatim>\<open>pc\<close> (the placeholder of an unresolved jump)
  passes the loop condition and gives \<^verbatim>\<open>undefined\<close>, whose \<^verbatim>\<open>op\<close> cannot be read. \<open>tick_loop\<close>
  is the loop, with \<^verbatim>\<open>steps\<close> as its second argument; its third argument counts the
  instructions fetched and executed, which the source does not record. \<open>tick_run\<close> is the body
  of \<^verbatim>\<open>tick\<close> and returns the state, that count and the error, if any, that left \<^verbatim>\<open>tick\<close>;
  \<open>tick\<close> is the state alone.
\<close>

datatype flow = Continue vm_state | Break vm_state | Raise js_error vm_state

definition advance :: "vm_state \<Rightarrow> vm_state" where
  "advance s = s\<lparr>pc := pc s + 1\<rparr>"

definition emit_log :: "jsval \<Rightarrow> string option \<Rightarrow> (string \<times> string) option \<Rightarrow> vm_state \<Rightarrow> vm_state" where
  "emit_log msg level pos s = s\<lparr>logged := logged s @ [Log msg level pos]\<rparr>"

definition do_stage :: "physics \<Rightarrow> physics" where
  "do_stage p = p\<lparr>stages := num_sub (stages p) (Fin 1), fuel := fuelStart p,
                  massDry := num_mul (massDry p) (Fin (6 / 10))\<rparr>"

definition do_lock :: "host \<Rightarrow> string \<Rightarrow> jsval \<Rightarrow> physics \<Rightarrow> physics" where
  "do_lock H target v p =
     (let p1 = (if target = ''THROTTLE''
                then p\<lparr>throttle := num_min (num_max (to_number H v) (Fin 0)) (Fin 1)\<rparr> else p)
      in if target = ''STEERING'' then p1\<lparr>steeringTarget := v\<rparr> else p1)"

fun exec_instr :: "host \<Rightarrow> instr \<Rightarrow> vm_state \<Rightarrow> flow" where
  "exec_instr H YIELD s = Break (advance s)"
| "exec_instr H (WAIT t) s = Break (advance (s\<lparr>waitTimer := t\<rparr>))"
| "exec_instr H (PRINT expr pos) s =
     (case vm_eval H s expr of
        Throw err \<Rightarrow> Raise err s
      | Normal v \<Rightarrow> Continue (advance (emit_log v (Some ''info'') pos s)))"
| "exec_instr H (LOCK target expr) s =
     (case vm_eval H s expr of
        Throw err \<Rightarrow> Raise err s
      | Normal v \<Rightarrow> Continue (advance (s\<lparr>phys := do_lock H target v (phys s)\<rparr>)))"
| "exec_instr H (SET_VAR target expr) s =
     (case vm_eval H s expr of
        Throw err \<Rightarrow> Raise err s
      | Normal v \<Rightarrow> Continue (advance (s\<lparr>vars := store target v (vars s)\<rparr>)))"
| "exec_instr H STAGE s =
     Continue (advance
       (if num_gt (stages (phys s)) (Fin 0)
        then emit_log (VStr ''STAGED'') (Some ''warn'') None (s\<lparr>phys := do_stage (phys s)\<rparr>)
        else s))"
| "exec_instr H CLEAR s = Continue (advance (emit_log (VStr ''CLEAR'') None None s))"
| "exec_instr H (JMP dest) s = Continue (s\<lparr>pc := dest\<rparr>)"
| "exec_instr H (JMP_FALSE dest expr) s =
     (case vm_eval H s expr of
        Throw err \<Rightarrow> Raise err s
      | Normal v \<Rightarrow> Continue (s\<lparr>pc := (if truthy v then pc s + 1 else dest)\<rparr>))"
| "exec_instr H (JMP_TRUE dest expr) s =
     (case vm_eval H s expr of
        Throw err \<Rightarrow> Raise err s
      | Normal v \<Rightarrow> Continue (s\<lparr>pc := (if truthy v then dest else pc s + 1)\<rparr>))"

definition fetch :: "vm_state \<Rightarrow> instr option" where
  "fetch s = (if 0 \<le> pc s \<and> pc s < int (length (instructions s))
              then Some (instructions s ! nat (pc s)) else None)"

record tick_result =
  state :: vm_state
  executed :: nat
  raised :: "js_error option"

function tick_loop :: "host \<Rightarrow> nat \<Rightarrow> nat \<Rightarrow> vm_state \<Rightarrow> tick_result" where
  "tick_loop H steps n s =
     (if steps < 20 \<and> pc s < int (length (instructions s)) then
        (case fetch s of
           None \<Rightarrow> \<lparr>state = s, executed = n, raised = Some (TypeError_undefined ''op'')\<rparr>
         | Some cmd \<Rightarrow>
             (case exec_instr H cmd s of
                Break s' \<Rightarrow> \<lparr>state = s', executed = n + 1, raised = None\<rparr>
              | Raise err s' \<Rightarrow> \<lparr>state = s', executed = n + 1, raised = Some err\<rparr>
              | Continue s' \<Rightarrow> tick_loop H (steps + 1) (n + 1) s'))
      else \<lparr>state = s, executed = n, raised = None\<rparr>)"
  by pat_completeness auto

termination tick_loop
  by (relation "measure (\<lambda>(H, steps, n, s). 20 - steps)") auto

declare tick_loop.simps [simp del]

definition finish :: "vm_state \<Rightarrow> vm_state" where
  "finish s =
     (if pc s \<ge> int (length (instructions s)) \<and> running s
      then emit_log (VStr ''Program Ended.'') (Some ''sys'') None (s\<lparr>running := False\<rparr>)
      else s)"

definition tick_run :: "host \<Rightarrow> jsnum \<Rightarrow> vm_state \<Rightarrow> tick_result" where
  "tick_run H dt s =
     (if \<not> running s then \<lparr>state = s, executed = 0, raised = None\<rparr>
      else if num_gt (waitTimer s) (Fin 0)
      then \<lparr>state = s\<lparr>waitTimer := num_sub (waitTimer s) dt\<rparr>, executed = 0, raised = None\<rparr>
      else
        (let r = tick_loop H 0 0 s in
         if raised r = None then r\<lparr>state := finish (state r)\<rparr> else r))"


definition run :: "host \<Rightarrow> string \<Rightarrow> vm_state \<Rightarrow> vm_state" where
  "run H code s =
     (let s1 = s\<lparr>vars := []\<rparr> in
      case compile H code of
        Throw err \<Rightarrow>
          emit_log (VStr (''Compile Error: '' @ error_message H err)) (Some ''err'') None s1
      | Normal prog \<Rightarrow>
          emit_log (VStr ''Program Loaded.'') (Some ''sys'') None
            (s1\<lparr>instructions := prog, pc := 0, running := True, waitTimer := Fin 0\<rparr>))"


section \<open>A sample host\<close>

text \<open>
  A host for the examples. Its evaluator covers decimal integer literals below \<open>2^53\<close> and
  one binary operation on two of them, and knows one kind of syntax error: a text without
  quotes and slashes whose parentheses do not balance. On any other text it answers
  \<open>Throw OtherError\<close>, which stands for "not covered", and no example below evaluates such a
  text. Its number printer covers \<open>NaN\<close>, the infinities and the integers below \<open>10^21\<close> in
  absolute value, which print in decimal notation. The error message is the wording of V8.
\<close>

definition decimal_literal :: "string \<Rightarrow> nat option" where
  "decimal_literal w =
     (if w \<noteq> [] \<and> list_all digit_char w \<and> (hd w \<noteq> CHR ''0'' \<or> w = ''0'')
         \<and> digits_value 0 w < 2 ^ 53
      then Some (digits_value 0 w) else None)"

fun split_spaces :: "string \<Rightarrow> string \<Rightarrow> string list" where
  "split_spaces acc [] = [rev acc]"
| "split_spaces acc (c # cs) =
     (if c = CHR '' '' then rev acc # split_spaces [] cs else split_spaces (c # acc) cs)"

definition binary_operator :: "string \<Rightarrow> (jsnum \<Rightarrow> jsnum \<Rightarrow> jsval) option" where
  "binary_operator w =
     (if w = ''+'' then Some (\<lambda>a b. VNum (num_add a b))
      else if w = ''-'' then Some (\<lambda>a b. VNum (num_sub a b))
      else if w = ''*'' then Some (\<lambda>a b. VNum (num_mul a b))
      else if w = ''/'' then Some (\<lambda>a b. VNum (num_div a b))
      else if w = ''<'' then Some (\<lambda>a b. VBool (num_gt b a))
      else if w = ''>'' then Some (\<lambda>a b. VBool (num_gt a b))
      else None)"

definition unbalanced_parens :: "string \<Rightarrow> bool" where
  "unbalanced_parens s =
     (\<not> list_ex (\<lambda>c. c \<in> {CHR 0x22, CHR 0x27, CHR 0x60, CHR ''/''}) s
      \<and> length (filter (\<lambda>c. c = CHR ''('') s) \<noteq> length (filter (\<lambda>c. c = CHR '')'') s))"

definition sample_eval :: "string \<Rightarrow> jsval completion" where
  "sample_eval s =
     (if unbalanced_parens s then Throw SyntaxError
      else
        (case map decimal_literal (filter (\<lambda>w. w \<noteq> []) (split_spaces [] s)) of
           [Some a] \<Rightarrow> Normal (VNum (Fin (real a)))
         | _ \<Rightarrow>
           (case filter (\<lambda>w. w \<noteq> []) (split_spaces [] s) of
              [x, f, y] \<Rightarrow>
                (case (decimal_literal x, binary_operator f, decimal_literal y) of
                   (Some a, Some g, Some b) \<Rightarrow> Normal (g (Fin (real a)) (Fin (real b)))
                 | _ \<Rightarrow> Throw OtherError)
            | _ \<Rightarrow> Throw OtherError)))"

function show_nat :: "nat \<Rightarrow> string" where
  "show_nat n =
     (if n < 10 then [''0123456789'' ! n] else show_nat (n div 10) @ [''0123456789'' ! (n mod 10)])"
  by pat_completeness auto

termination show_nat
  by (relation "measure id") auto

declare show_nat.simps [simp del]

definition sample_number_to_string :: "jsnum \<Rightarrow> string" where
  "sample_number_to_string n =
     (case n of
        NaN \<Rightarrow> ''NaN''
      | PosInf \<Rightarrow> ''Infinity''
      | NegInf \<Rightarrow> ''-Infinity''
      | Fin r \<Rightarrow>
          if r = of_int \<lfloor>r\<rfloor> \<and> \<bar>r\<bar> < 10 ^ 21
          then (if r < 0 then ''-'' else '''') @ show_nat (nat \<bar>\<lfloor>r\<rfloor>\<bar>)
          else ''?'')"

definition sample_parse :: "string \<Rightarrow> jsnum" where
  "sample_parse w = (case decimal_literal w of Some n \<Rightarrow> Fin (real n) | None \<Rightarrow> NaN)"

definition sample_message :: "js_error \<Rightarrow> string" where
  "sample_message e =
     (case e of
        TypeError_undefined p \<Rightarrow>
          ''Cannot read properties of undefined (reading '' @ [CHR 0x27] @ p @ [CHR 0x27] @ '')''
      | SyntaxError \<Rightarrow> ''SyntaxError''
      | ReferenceError \<Rightarrow> ''ReferenceError''
      | OtherError \<Rightarrow> ''Error'')"

definition sample_host :: host where
  "sample_host =
     \<lparr>js_eval = sample_eval,
      number_to_string = sample_number_to_string,
      string_to_number = sample_parse,
      parse_float = sample_parse,
      regexp_replace = (\<lambda>pat rep s. Throw OtherError),
      error_message = sample_message\<rparr>"

definition sample_physics :: physics where
  "sample_physics =
     \<lparr>massDry = Fin 25000, fuelStart = Fin 600, stages = Fin 2, fuel = Fin 300,
      throttle = Fin 0, steeringTarget = VNum (Fin 90),
      getOrbit = \<lparr>ap = Fin 100, pe = Fin (- 600000), alt = Fin 0, eta = Fin 0, vel = Fin 0\<rparr>\<rparr>"

definition new_vm :: "physics \<Rightarrow> vm_state" where
  "new_vm p = \<lparr>phys = p, logged = [], instructions = [], pc = 0, running = False,
               waitTimer = Fin 0, vars = []\<rparr>"


lemmas lex_simps = tokenize_def mk_token_def keyword_list_def ident_char_def word_char_def
  op_char_def punct_char_def dquote_def line_terminator_def

lemmas compile_simps = compile_def compile_state_def init_cstate_def compile_loop.simps
  compile_step_def compile_stmt_def val_at_def token_at_def gather_def stoppers_def emit_def
  close_block_def patch_def

lemmas eval_simps = vm_eval_def eval_text_def telemetry_text_def replace_literal_def
  literal_match_def starts_with_def heading_match_def round_match_def strip_prefix_def
  for_in_def array_index_def digit_char_def replace_var_def replace_word_def word_match_def
  is_word_def char_at_def regexp_syntax_char_def word_char_def white_space_def
  sample_host_def sample_eval_def sample_number_to_string_def decimal_literal_def
  unbalanced_parens_def binary_operator_def show_nat.simps Let_def

section \<open>Step budget\<close>

lemma tick_loop_stop:
  "\<not> (steps < 20 \<and> pc s < int (length (instructions s))) \<Longrightarrow>
   tick_loop H steps n s = \<lparr>state = s, executed = n, raised = None\<rparr>"
  by (subst tick_loop.simps) auto

lemma tick_loop_undefined:
  "steps < 20 \<Longrightarrow> pc s < int (length (instructions s)) \<Longrightarrow> fetch s = None \<Longrightarrow>
   tick_loop H steps n s = \<lparr>state = s, executed = n, raised = Some (TypeError_undefined ''op'')\<rparr>"
  by (subst tick_loop.simps) auto

lemma tick_loop_continue:
  "steps < 20 \<Longrightarrow> fetch s = Some cmd \<Longrightarrow> exec_instr H cmd s = Continue s' \<Longrightarrow>
   tick_loop H steps n s = tick_loop H (steps + 1) (n + 1) s'"
  by (subst tick_loop.simps) (auto simp: fetch_def split: if_splits)

lemma tick_loop_break:
  "steps < 20 \<Longrightarrow> fetch s = Some cmd \<Longrightarrow> exec_instr H cmd s = Break s' \<Longrightarrow>
   tick_loop H steps n s = \<lparr>state = s', executed = n + 1, raised = None\<rparr>"
  by (subst tick_loop.simps) (auto simp: fetch_def split: if_splits)

lemma tick_loop_raise:
  "steps < 20 \<Longrightarrow> fetch s = Some cmd \<Longrightarrow> exec_instr H cmd s = Raise err s' \<Longrightarrow>
   tick_loop H steps n s = \<lparr>state = s', executed = n + 1, raised = Some err\<rparr>"
  by (subst tick_loop.simps) (auto simp: fetch_def split: if_splits)

lemma tick_loop_executed: "executed (tick_loop H steps n s) \<le> n + (20 - steps)"
proof (induction H steps n s rule: tick_loop.induct)
  case (1 H steps n s)
  show ?case
  proof (cases "steps < 20 \<and> pc s < int (length (instructions s))")
    case False
    then show ?thesis by (simp add: tick_loop_stop)
  next
    case go: True
    show ?thesis
    proof (cases "fetch s")
      case None
      with go show ?thesis by (auto simp: tick_loop_undefined)
    next
      case (Some cmd)
      show ?thesis
      proof (cases "exec_instr H cmd s")
        case (Continue s')
        from "1.IH" [OF go Some Continue] Continue Some go show ?thesis
          by (auto simp: tick_loop_continue)
      next
        case (Break s')
        with Some go show ?thesis by (auto simp: tick_loop_break)
      next
        case (Raise err s')
        with Some go show ?thesis by (auto simp: tick_loop_raise)
      qed
    qed
  qed
qed

text \<open>
  C3. For every host, every VM state and every \<open>dt\<close>, one call of \<open>tick\<close> fetches and
  executes at most 20 instructions. The counter \<open>executed\<close> counts every loop iteration that
  fetched an instruction: jumps, and also the \<open>YIELD\<close> or \<open>WAIT\<close> that ends the batch.
\<close>

theorem tick_step_budget: "executed (tick_run H dt s) \<le> 20"
  using tick_loop_executed [of H 0 0 s] by (simp add: tick_run_def Let_def)

section \<open>STAGE\<close>

text \<open>
  C5. Executing \<open>STAGE\<close> always continues the batch with \<open>pc\<close> advanced by 1. When the
  stage count is greater than 0 it is decremented by 1, the fuel is reset to \<open>fuelStart\<close> and
  the dry mass is multiplied by 0.6; otherwise none of the three fields changes.
\<close>

theorem stage_instruction:
  "\<exists>s'. exec_instr H STAGE s = Continue s' \<and> pc s' = pc s + 1 \<and>
     (if num_gt (stages (phys s)) (Fin 0)
      then stages (phys s') = num_sub (stages (phys s)) (Fin 1)
         \<and> fuel (phys s') = fuelStart (phys s)
         \<and> massDry (phys s') = num_mul (massDry (phys s)) (Fin (6 / 10))
      else stages (phys s') = stages (phys s)
         \<and> fuel (phys s') = fuel (phys s)
         \<and> massDry (phys s') = massDry (phys s))"
  by (simp add: advance_def emit_log_def do_stage_def)

section \<open>run\<close>

text \<open>
  C10. When \<open>compile\<close> throws inside \<open>run\<close>, the variable store has already been
  emptied, while the instruction sequence, the program counter, the running flag and the wait
  timer keep the values they had before the call.
\<close>

theorem run_compile_throws:
  assumes "compile H code = Throw err"
  shows "vars (run H code s) = [] \<and> instructions (run H code s) = instructions s
       \<and> pc (run H code s) = pc s \<and> running (run H code s) = running s
       \<and> waitTimer (run H code s) = waitTimer s"
  using assms by (simp add: run_def emit_log_def)

definition old_vm :: vm_state where
  "old_vm = (new_vm sample_physics)\<lparr>instructions := [STAGE, YIELD], pc := 1, running := True,
     waitTimer := Fin 3, vars := [(''X'', VNum (Fin 5))]\<rparr>"

lemma compile_LOCK_throws: "compile sample_host ''LOCK'' = Throw (TypeError_undefined ''val'')"
  by (simp add: lex_simps compile_simps)

theorem run_compile_throws_witness:
  "compile sample_host ''LOCK'' = Throw (TypeError_undefined ''val'')
   \<and> vars old_vm = [(''X'', VNum (Fin 5))]
   \<and> vars (run sample_host ''LOCK'' old_vm) = []
   \<and> instructions (run sample_host ''LOCK'' old_vm) = [STAGE, YIELD]
   \<and> pc (run sample_host ''LOCK'' old_vm) = 1
   \<and> running (run sample_host ''LOCK'' old_vm)
   \<and> waitTimer (run sample_host ''LOCK'' old_vm) = Fin 3"
  using run_compile_throws [OF compile_LOCK_throws, of old_vm] compile_LOCK_throws
  by (simp add: old_vm_def new_vm_def)

theorem stage_instruction_witness:
  "exec_instr sample_host STAGE old_vm =
     Continue (old_vm\<lparr>phys := sample_physics\<lparr>stages := Fin 1, fuel := Fin 600, massDry := Fin 15000\<rparr>,
                      logged := [Log (VStr ''STAGED'') (Some ''warn'') None], pc := 2\<rparr>)"
  using stage_instruction [of sample_host old_vm]
  by (simp add: old_vm_def new_vm_def sample_physics_def advance_def emit_log_def do_stage_def num_sub_def)


section \<open>Scripts as the compiler reads them, and the layout of their code\<close>

text \<open>
  The compiler has no parser: its loop passes over every token that is not a statement keyword
  or \<open>}\<close>, and each statement handler takes a fixed number of tokens, or gathers tokens up to
  the next \<open>{\<close>, \<open>.\<close> or \<open>AT\<close>. A value of \<open>stmt\<close> records one such reading:
  \<^item> \<open>SSkip a\<close>: a token the loop passes over (a stray \<open>.\<close>, \<open>{\<close>, number, \<open>TO\<close>, ...);
  \<^item> \<open>SPrint e stop\<close>: \<open>PRINT\<close>, the gathered tokens \<open>e\<close>, and the \<open>.\<close> or \<open>{\<close> that stopped
    the gathering; \<open>SPrintAt e p1 x p2 y p3\<close>: \<open>PRINT e AT p1 x p2 y p3\<close>, where \<open>x\<close> and \<open>y\<close>
    are the tokens two and four places after \<open>AT\<close>;
  \<^item> \<open>SLock t p e stop\<close> and \<open>SSet n p e stop\<close>: the keyword, the target, the token \<open>p\<close> in the
    place of \<open>TO\<close> (never inspected), the gathered tokens and the stopping token;
  \<^item> \<open>SDeclare n\<close>, \<open>SWait n\<close>, \<open>SWaitUntil e stop\<close>, \<open>SStage\<close>, \<open>SClear\<close>;
  \<^item> \<open>SIf c stop body\<close>, \<open>SUntil c stop body\<close>: the keyword, the gathered guard, the stopping
    token, the statements of the body and the closing \<open>}\<close>;
    \<open>SIfElse c stop a p b\<close>: the same, followed by \<open>ELSE\<close>, the token \<open>p\<close> that \<open>ELSE\<close> skips,
    the statements of the second body and its \<open>}\<close>.

  \<open>unparse\<close> gives the tokens of a reading. Every script of the grammar
  \<open>PRINT expr [AT (x, y)] . | LOCK id TO expr . | SET id TO expr . | DECLARE PARAMETER id . |
  WAIT (number | UNTIL expr) . | STAGE . | CLEARSCREEN . | IF expr { stmt* } [ELSE { stmt* }] |
  UNTIL expr { stmt* }\<close> has such a reading: the terminating \<open>.\<close> of a statement without an
  expression is an \<open>SSkip\<close>, and so is whatever follows the first \<open>.\<close> of an expression with a
  decimal literal, which the lexer splits into number, dot, number.

  \<open>layout H b s\<close> is the code expected for \<open>s\<close> when it is placed at address \<open>b\<close>, with all
  jump destinations resolved. It follows the description of the statement forms, not the
  compiler; \<open>compile_grammar\<close> below proves that the compiler produces it.
\<close>

datatype stmt =
    SSkip string
  | SPrint "string list" string
  | SPrintAt "string list" string string string string string
  | SLock string string "string list" string
  | SSet string string "string list" string
  | SDeclare string
  | SWait string
  | SWaitUntil "string list" string
  | SStage
  | SClear
  | SIf "string list" string "stmt list"
  | SIfElse "string list" string "stmt list" string "stmt list"
  | SUntil "string list" string "stmt list"

fun unparse :: "stmt \<Rightarrow> string list" and unparse_block :: "stmt list \<Rightarrow> string list" where
  "unparse (SSkip a) = [a]"
| "unparse (SPrint e stop) = ''PRINT'' # e @ [stop]"
| "unparse (SPrintAt e p1 x p2 y p3) = ''PRINT'' # e @ [''AT'', p1, x, p2, y, p3]"
| "unparse (SLock t p e stop) = [''LOCK'', t, p] @ e @ [stop]"
| "unparse (SSet n p e stop) = [''SET'', n, p] @ e @ [stop]"
| "unparse (SDeclare n) = [''DECLARE'', ''PARAMETER'', n]"
| "unparse (SWait n) = [''WAIT'', n]"
| "unparse (SWaitUntil e stop) = [''WAIT'', ''UNTIL''] @ e @ [stop]"
| "unparse SStage = [''STAGE'']"
| "unparse SClear = [''CLEARSCREEN'']"
| "unparse (SIf c stop body) = ''IF'' # c @ [stop] @ unparse_block body @ [''}'']"
| "unparse (SIfElse c stop a p b) =
     ''IF'' # c @ [stop] @ unparse_block a @ [''}'', ''ELSE'', p] @ unparse_block b @ [''}'']"
| "unparse (SUntil c stop body) = ''UNTIL'' # c @ [stop] @ unparse_block body @ [''}'']"
| "unparse_block [] = []"
| "unparse_block (s # ss) = unparse s @ unparse_block ss"

definition wf_expr :: "string list \<Rightarrow> bool" where
  "wf_expr e = list_all (\<lambda>t. t \<notin> set stoppers) e"

definition statement_keywords :: "string list" where
  "statement_keywords = [''PRINT'', ''LOCK'', ''SET'', ''DECLARE'', ''WAIT'', ''STAGE'',
     ''CLEARSCREEN'', ''IF'', ''ELSE'', ''UNTIL'']"

fun wf :: "stmt \<Rightarrow> bool" and wf_block :: "stmt list \<Rightarrow> bool" where
  "wf (SSkip a) = (a \<noteq> ''}'' \<and> a \<notin> set statement_keywords)"
| "wf (SPrint e stop) = (wf_expr e \<and> (stop = ''.'' \<or> stop = ''{''))"
| "wf (SPrintAt e p1 x p2 y p3) = wf_expr e"
| "wf (SLock t p e stop) = (wf_expr e \<and> stop \<in> set stoppers)"
| "wf (SSet n p e stop) = (wf_expr e \<and> stop \<in> set stoppers)"
| "wf (SDeclare n) = True"
| "wf (SWait n) = (n \<noteq> ''UNTIL'')"
| "wf (SWaitUntil e stop) = (wf_expr e \<and> stop \<in> set stoppers)"
| "wf SStage = True"
| "wf SClear = True"
| "wf (SIf c stop body) = (wf_expr c \<and> stop \<in> set stoppers \<and> wf_block body)"
| "wf (SIfElse c stop a p b) = (wf_expr c \<and> stop \<in> set stoppers \<and> wf_block a \<and> wf_block b)"
| "wf (SUntil c stop body) = (wf_expr c \<and> stop \<in> set stoppers \<and> wf_block body)"
| "wf_block [] = True"
| "wf_block (s # ss) = (wf s \<and> wf_block ss)"

fun layout :: "host \<Rightarrow> nat \<Rightarrow> stmt \<Rightarrow> instr list"
  and layout_block :: "host \<Rightarrow> nat \<Rightarrow> stmt list \<Rightarrow> instr list" where
  "layout H b (SSkip a) = []"
| "layout H b (SPrint e stop) = [PRINT e None]"
| "layout H b (SPrintAt e p1 x p2 y p3) = [PRINT e (Some (x, y))]"
| "layout H b (SLock t p e stop) = [LOCK t e]"
| "layout H b (SSet n p e stop) = [SET_VAR n e]"
| "layout H b (SDeclare n) = [SET_VAR n [''0'']]"
| "layout H b (SWait n) = [WAIT (parse_float H n)]"
| "layout H b (SWaitUntil e stop) = [JMP_TRUE (int b + 3) e, YIELD, JMP (int b)]"
| "layout H b SStage = [STAGE]"
| "layout H b SClear = [CLEAR]"
| "layout H b (SIf c stop body) =
     (let code = layout_block H (b + 1) body
      in JMP_FALSE (int (b + 1 + length code)) c # code)"
| "layout H b (SIfElse c stop a p b') =
     (let ca = layout_block H (b + 1) a;
          cb = layout_block H (b + 2 + length ca) b'
      in JMP_FALSE (int (b + 2 + length ca)) c # ca
         @ [JMP (int (b + 2 + length ca + length cb))] @ cb)"
| "layout H b (SUntil c stop body) =
     (let code = layout_block H (b + 1) body
      in JMP_TRUE (int (b + 3 + length code)) c # code @ [YIELD, JMP (int b)])"
| "layout_block H b [] = []"
| "layout_block H b (s # ss) =
     (let code = layout H b s in code @ layout_block H (b + length code) ss)"

subsection \<open>One iteration of the compiler's loop\<close>

lemma compile_loop_unfold:
  "ci st < length ts \<Longrightarrow> compile_step H ts st = Normal st' \<Longrightarrow>
   compile_loop H ts st = compile_loop H ts (st'\<lparr>ci := ci st' + 1\<rparr>)"
  by (subst compile_loop.simps) simp

lemma drop_Cons_nth: "drop i ts = x # xs \<Longrightarrow> i < length ts \<and> ts ! i = x"
  by (metis drop_all hd_drop_conv_nth list.distinct(1) list.sel(1) not_less)

lemma drop_append_shift: "drop i ts = xs @ ys \<Longrightarrow> drop (i + length xs) ts = ys"
  by (metis add.commute append_eq_conv_conj drop_drop)

lemma gather_from_expr:
  "wf_expr e \<Longrightarrow> v \<in> set stoppers \<Longrightarrow> gather_from (map mk_token e @ mk_token v # rest) = e"
  by (induction e) (auto simp: wf_expr_def mk_token_def)

lemma gather_expr:
  assumes "drop idx ts = map mk_token e @ mk_token v # rest" "wf_expr e" "v \<in> set stoppers"
  shows "gather ts idx = (e, idx + length e)"
  using assms by (simp add: gather_def gather_from_expr)

lemma token_at_drop: "drop i ts = x # xs \<Longrightarrow> token_at ts i = Some x"
  by (auto simp: token_at_def dest: drop_Cons_nth)

lemma val_at_drop: "drop i ts = x # xs \<Longrightarrow> val_at ts i = Normal (val x)"
  by (simp add: val_at_def token_at_drop)

lemma step_at:
  assumes "drop i ts = mk_token v # rest" "ci st = i"
          "compile_stmt H ts (mk_token v) st = Normal st'"
  shows "compile_loop H ts st = compile_loop H ts (st'\<lparr>ci := ci st' + 1\<rparr>)"
proof -
  from assms(1) have lt: "i < length ts" and tok: "ts ! i = mk_token v"
    by (auto dest: drop_Cons_nth)
  have "compile_stmt H ts (mk_token v) st = Normal st"
    if "ttype (mk_token v) \<noteq> KEYWORD" "val (mk_token v) \<noteq> ''}''"
    using that by (auto simp: compile_stmt_def mk_token_def keyword_list_def Let_def split: if_splits)
  with tok assms(2,3) have "compile_step H ts st = Normal st'"
    by (auto simp: compile_step_def Let_def)
  with lt assms(2) show ?thesis by (simp add: compile_loop_unfold)
qed


lemma sim_skip:
  assumes "drop i ts = mk_token a # rest" "a \<noteq> ''}''" "a \<notin> set statement_keywords"
  shows "compile_loop H ts \<lparr>ci = i, instrs = ins, stack = stk, lastClosedIf = lci\<rparr>
       = compile_loop H ts \<lparr>ci = i + 1, instrs = ins, stack = stk, lastClosedIf = lci\<rparr>"
proof -
  let ?st = "\<lparr>ci = i, instrs = ins, stack = stk, lastClosedIf = lci\<rparr>"
  from assms(2,3) have "compile_stmt H ts (mk_token a) ?st = Normal ?st"
    by (simp add: compile_stmt_def mk_token_def statement_keywords_def)
  from step_at [OF assms(1) _ this] show ?thesis by simp
qed

lemma sim_print:
  assumes "drop i ts = mk_token ''PRINT'' # map mk_token e @ mk_token stop # rest"
          "wf_expr e" "stop \<in> set stoppers" "stop \<noteq> ''AT''"
  shows "compile_loop H ts \<lparr>ci = i, instrs = ins, stack = stk, lastClosedIf = lci\<rparr>
       = compile_loop H ts \<lparr>ci = i + length e + 2, instrs = ins @ [PRINT e None],
           stack = stk, lastClosedIf = lci\<rparr>"
proof -
  let ?st = "\<lparr>ci = i, instrs = ins, stack = stk, lastClosedIf = lci\<rparr>"
  from drop_append_shift [of i ts "[mk_token ''PRINT'']"] assms(1)
  have d: "drop (i + 1) ts = map mk_token e @ mk_token stop # rest"
    by (simp add: eval_nat_numeral)
  then have g: "gather ts (i + 1) = (e, i + 1 + length e)"
    using assms(2,3) by (intro gather_expr)
  from drop_append_shift [OF d]
  have s: "token_at ts (i + 1 + length e) = Some (mk_token stop)"
    by (simp add: token_at_drop)
  from g s assms(4) have "compile_stmt H ts (mk_token ''PRINT'') ?st
      = Normal \<lparr>ci = i + 1 + length e, instrs = ins @ [PRINT e None],
          stack = stk, lastClosedIf = lci\<rparr>"
    by (simp add: compile_stmt_def mk_token_def emit_def Let_def)
  from step_at [OF assms(1) _ this] show ?thesis
    by (simp add: eval_nat_numeral)
qed

lemma sim_print_at:
  assumes "drop i ts = mk_token ''PRINT'' # map mk_token e
             @ mk_token ''AT'' # p1 # mk_token x # p2 # mk_token y # p3 # rest"
          "wf_expr e"
  shows "compile_loop H ts \<lparr>ci = i, instrs = ins, stack = stk, lastClosedIf = lci\<rparr>
       = compile_loop H ts \<lparr>ci = i + length e + 7, instrs = ins @ [PRINT e (Some (x, y))],
           stack = stk, lastClosedIf = lci\<rparr>"
proof -
  let ?st = "\<lparr>ci = i, instrs = ins, stack = stk, lastClosedIf = lci\<rparr>"
  let ?k = "i + 1 + length e"
  from drop_append_shift [of i ts "[mk_token ''PRINT'']"] assms(1)
  have d1: "drop (i + 1) ts = map mk_token e
      @ mk_token ''AT'' # p1 # mk_token x # p2 # mk_token y # p3 # rest"
    by simp
  then have g: "gather ts (i + 1) = (e, ?k)"
    using assms(2) by (intro gather_expr) (auto simp: stoppers_def)
  from drop_append_shift [OF d1]
  have d2: "drop ?k ts = [mk_token ''AT'', p1] @ mk_token x # p2 # mk_token y # p3 # rest"
    by simp
  then have a: "token_at ts ?k = Some (mk_token ''AT'')" by (simp add: token_at_drop)
  from drop_append_shift [OF d2]
  have d3: "drop (?k + 2) ts = [mk_token x, p2] @ mk_token y # p3 # rest"
    by (simp add: eval_nat_numeral)
  then have vx: "val_at ts (?k + 2) = Normal x" by (simp add: val_at_drop mk_token_def)
  from drop_append_shift [OF d3]
  have d4: "drop (?k + 4) ts = mk_token y # p3 # rest"
    by (simp add: eval_nat_numeral)
  then have vy: "val_at ts (?k + 4) = Normal y" by (simp add: val_at_drop mk_token_def)
  from g a vx vy have "compile_stmt H ts (mk_token ''PRINT'') ?st
      = Normal \<lparr>ci = ?k + 5, instrs = ins @ [PRINT e (Some (x, y))], stack = stk, lastClosedIf = lci\<rparr>"
    by (simp add: compile_stmt_def mk_token_def emit_def)
  from step_at [OF assms(1) _ this] show ?thesis
    by (simp add: eval_nat_numeral)
qed

lemma sim_lock:
  assumes "drop i ts = mk_token ''LOCK'' # mk_token t # p # map mk_token e @ mk_token stop # rest"
          "wf_expr e" "stop \<in> set stoppers"
  shows "compile_loop H ts \<lparr>ci = i, instrs = ins, stack = stk, lastClosedIf = lci\<rparr>
       = compile_loop H ts \<lparr>ci = i + length e + 4, instrs = ins @ [LOCK t e],
           stack = stk, lastClosedIf = lci\<rparr>"
proof -
  let ?st = "\<lparr>ci = i, instrs = ins, stack = stk, lastClosedIf = lci\<rparr>"
  from drop_append_shift [of i ts "[mk_token ''LOCK'']"] assms(1)
  have d1: "drop (i + 1) ts = mk_token t # p # map mk_token e @ mk_token stop # rest"
    by simp
  then have v: "val_at ts (i + 1) = Normal t" by (simp add: val_at_drop mk_token_def)
  from drop_append_shift [of i ts "[mk_token ''LOCK'', mk_token t, p]"] assms(1)
  have "drop (i + 3) ts = map mk_token e @ mk_token stop # rest"
    by (simp add: eval_nat_numeral)
  then have g: "gather ts (i + 3) = (e, i + 3 + length e)"
    using assms(2,3) by (intro gather_expr)
  from g v have "compile_stmt H ts (mk_token ''LOCK'') ?st
      = Normal \<lparr>ci = i + 3 + length e, instrs = ins @ [LOCK t e],
          stack = stk, lastClosedIf = lci\<rparr>"
    by (simp add: compile_stmt_def mk_token_def emit_def)
  from step_at [OF assms(1) _ this] show ?thesis
    by (simp add: eval_nat_numeral)
qed

lemma sim_set:
  assumes "drop i ts = mk_token ''SET'' # mk_token t # p # map mk_token e @ mk_token stop # rest"
          "wf_expr e" "stop \<in> set stoppers"
  shows "compile_loop H ts \<lparr>ci = i, instrs = ins, stack = stk, lastClosedIf = lci\<rparr>
       = compile_loop H ts \<lparr>ci = i + length e + 4, instrs = ins @ [SET_VAR t e],
           stack = stk, lastClosedIf = lci\<rparr>"
proof -
  let ?st = "\<lparr>ci = i, instrs = ins, stack = stk, lastClosedIf = lci\<rparr>"
  from drop_append_shift [of i ts "[mk_token ''SET'']"] assms(1)
  have d1: "drop (i + 1) ts = mk_token t # p # map mk_token e @ mk_token stop # rest"
    by simp
  then have v: "val_at ts (i + 1) = Normal t" by (simp add: val_at_drop mk_token_def)
  from drop_append_shift [of i ts "[mk_token ''SET'', mk_token t, p]"] assms(1)
  have "drop (i + 3) ts = map mk_token e @ mk_token stop # rest"
    by (simp add: eval_nat_numeral)
  then have g: "gather ts (i + 3) = (e, i + 3 + length e)"
    using assms(2,3) by (intro gather_expr)
  from g v have "compile_stmt H ts (mk_token ''SET'') ?st
      = Normal \<lparr>ci = i + 3 + length e, instrs = ins @ [SET_VAR t e],
          stack = stk, lastClosedIf = lci\<rparr>"
    by (simp add: compile_stmt_def mk_token_def emit_def)
  from step_at [OF assms(1) _ this] show ?thesis
    by (simp add: eval_nat_numeral)
qed

lemma sim_declare:
  assumes "drop i ts = mk_token ''DECLARE'' # mk_token ''PARAMETER'' # mk_token n # rest"
  shows "compile_loop H ts \<lparr>ci = i, instrs = ins, stack = stk, lastClosedIf = lci\<rparr>
       = compile_loop H ts \<lparr>ci = i + 3, instrs = ins @ [SET_VAR n [''0'']],
           stack = stk, lastClosedIf = lci\<rparr>"
proof -
  let ?st = "\<lparr>ci = i, instrs = ins, stack = stk, lastClosedIf = lci\<rparr>"
  from drop_append_shift [of i ts "[mk_token ''DECLARE'']"] assms
  have d1: "drop (i + 1) ts = mk_token ''PARAMETER'' # mk_token n # rest"
    by simp
  then have p: "token_at ts (i + 1) = Some (mk_token ''PARAMETER'')" by (simp add: token_at_drop)
  from drop_append_shift [of i ts "[mk_token ''DECLARE'', mk_token ''PARAMETER'']"] assms
  have d2: "drop (i + 2) ts = mk_token n # rest"
    by (simp add: eval_nat_numeral)
  then have v: "val_at ts (i + 2) = Normal n" by (simp add: val_at_drop mk_token_def)
  from p v have "compile_stmt H ts (mk_token ''DECLARE'') ?st
      = Normal \<lparr>ci = i + 2, instrs = ins @ [SET_VAR n [''0'']], stack = stk, lastClosedIf = lci\<rparr>"
    by (simp add: compile_stmt_def mk_token_def emit_def)
  from step_at [OF assms _ this] show ?thesis
    by (simp add: eval_nat_numeral)
qed

lemma sim_wait:
  assumes "drop i ts = mk_token ''WAIT'' # mk_token n # rest" "n \<noteq> ''UNTIL''"
  shows "compile_loop H ts \<lparr>ci = i, instrs = ins, stack = stk, lastClosedIf = lci\<rparr>
       = compile_loop H ts \<lparr>ci = i + 2, instrs = ins @ [WAIT (parse_float H n)],
           stack = stk, lastClosedIf = lci\<rparr>"
proof -
  let ?st = "\<lparr>ci = i, instrs = ins, stack = stk, lastClosedIf = lci\<rparr>"
  from drop_append_shift [of i ts "[mk_token ''WAIT'']"] assms(1)
  have d1: "drop (i + 1) ts = mk_token n # rest"
    by simp
  then have v: "val_at ts (i + 1) = Normal n" by (simp add: val_at_drop mk_token_def)
  from v assms(2) have "compile_stmt H ts (mk_token ''WAIT'') ?st
      = Normal \<lparr>ci = i + 1, instrs = ins @ [WAIT (parse_float H n)], stack = stk, lastClosedIf = lci\<rparr>"
    by (simp add: compile_stmt_def mk_token_def emit_def)
  from step_at [OF assms(1) _ this] show ?thesis
    by (simp add: eval_nat_numeral)
qed

lemma sim_wait_until:
  assumes "drop i ts = mk_token ''WAIT'' # mk_token ''UNTIL'' # map mk_token e @ mk_token stop # rest"
          "wf_expr e" "stop \<in> set stoppers"
  shows "compile_loop H ts \<lparr>ci = i, instrs = ins, stack = stk, lastClosedIf = lci\<rparr>
       = compile_loop H ts \<lparr>ci = i + length e + 3,
           instrs = ins @ [JMP_TRUE (int (length ins) + 3) e, YIELD, JMP (int (length ins))],
           stack = stk, lastClosedIf = lci\<rparr>"
proof -
  let ?st = "\<lparr>ci = i, instrs = ins, stack = stk, lastClosedIf = lci\<rparr>"
  from drop_append_shift [of i ts "[mk_token ''WAIT'']"] assms(1)
  have d1: "drop (i + 1) ts = mk_token ''UNTIL'' # map mk_token e @ mk_token stop # rest"
    by simp
  then have v: "val_at ts (i + 1) = Normal ''UNTIL''" by (simp add: val_at_drop mk_token_def)
  from drop_append_shift [of i ts "[mk_token ''WAIT'', mk_token ''UNTIL'']"] assms(1)
  have "drop (i + 2) ts = map mk_token e @ mk_token stop # rest"
    by (simp add: eval_nat_numeral)
  then have g: "gather ts (i + 2) = (e, i + 2 + length e)"
    using assms(2,3) by (intro gather_expr)
  from g v have "compile_stmt H ts (mk_token ''WAIT'') ?st
      = Normal \<lparr>ci = i + 2 + length e,
          instrs = ins @ [JMP_TRUE (int (length ins) + 3) e, YIELD, JMP (int (length ins))],
          stack = stk, lastClosedIf = lci\<rparr>"
    by (simp add: compile_stmt_def mk_token_def emit_def Let_def)
  from step_at [OF assms(1) _ this] show ?thesis
    by (simp add: eval_nat_numeral)
qed

lemma sim_stage:
  assumes "drop i ts = mk_token ''STAGE'' # rest"
  shows "compile_loop H ts \<lparr>ci = i, instrs = ins, stack = stk, lastClosedIf = lci\<rparr>
       = compile_loop H ts \<lparr>ci = i + 1, instrs = ins @ [STAGE],
           stack = stk, lastClosedIf = lci\<rparr>"
proof -
  let ?st = "\<lparr>ci = i, instrs = ins, stack = stk, lastClosedIf = lci\<rparr>"
  have "compile_stmt H ts (mk_token ''STAGE'') ?st
      = Normal \<lparr>ci = i, instrs = ins @ [STAGE], stack = stk, lastClosedIf = lci\<rparr>"
    by (simp add: compile_stmt_def mk_token_def emit_def)
  from step_at [OF assms _ this] show ?thesis by simp
qed

lemma sim_clear:
  assumes "drop i ts = mk_token ''CLEARSCREEN'' # rest"
  shows "compile_loop H ts \<lparr>ci = i, instrs = ins, stack = stk, lastClosedIf = lci\<rparr>
       = compile_loop H ts \<lparr>ci = i + 1, instrs = ins @ [CLEAR],
           stack = stk, lastClosedIf = lci\<rparr>"
proof -
  let ?st = "\<lparr>ci = i, instrs = ins, stack = stk, lastClosedIf = lci\<rparr>"
  have "compile_stmt H ts (mk_token ''CLEARSCREEN'') ?st
      = Normal \<lparr>ci = i, instrs = ins @ [CLEAR], stack = stk, lastClosedIf = lci\<rparr>"
    by (simp add: compile_stmt_def mk_token_def emit_def)
  from step_at [OF assms _ this] show ?thesis by simp
qed

lemma open_if:
  assumes "drop i ts = mk_token ''IF'' # map mk_token c @ mk_token stop # rest"
          "wf_expr c" "stop \<in> set stoppers"
  shows "compile_loop H ts \<lparr>ci = i, instrs = ins, stack = stk, lastClosedIf = lci\<rparr>
       = compile_loop H ts \<lparr>ci = i + length c + 2, instrs = ins @ [JMP_FALSE (- 1) c],
           stack = IF_block (length ins) # stk, lastClosedIf = lci\<rparr>"
proof -
  let ?st = "\<lparr>ci = i, instrs = ins, stack = stk, lastClosedIf = lci\<rparr>"
  from drop_append_shift [of i ts "[mk_token ''IF'']"] assms(1)
  have d1: "drop (i + 1) ts = map mk_token c @ mk_token stop # rest"
    by simp
  then have g: "gather ts (i + 1) = (c, i + 1 + length c)"
    using assms(2,3) by (intro gather_expr)
  from g have "compile_stmt H ts (mk_token ''IF'') ?st
      = Normal \<lparr>ci = i + 1 + length c, instrs = ins @ [JMP_FALSE (- 1) c],
          stack = IF_block (length ins) # stk, lastClosedIf = lci\<rparr>"
    by (simp add: compile_stmt_def mk_token_def emit_def)
  from step_at [OF assms(1) _ this] show ?thesis
    by (simp add: eval_nat_numeral)
qed

lemma open_until:
  assumes "drop i ts = mk_token ''UNTIL'' # map mk_token c @ mk_token stop # rest"
          "wf_expr c" "stop \<in> set stoppers"
  shows "compile_loop H ts \<lparr>ci = i, instrs = ins, stack = stk, lastClosedIf = lci\<rparr>
       = compile_loop H ts \<lparr>ci = i + length c + 2, instrs = ins @ [JMP_TRUE (- 1) c],
           stack = UNTIL_block (length ins) (length ins) # stk, lastClosedIf = lci\<rparr>"
proof -
  let ?st = "\<lparr>ci = i, instrs = ins, stack = stk, lastClosedIf = lci\<rparr>"
  from drop_append_shift [of i ts "[mk_token ''UNTIL'']"] assms(1)
  have d1: "drop (i + 1) ts = map mk_token c @ mk_token stop # rest"
    by simp
  then have g: "gather ts (i + 1) = (c, i + 1 + length c)"
    using assms(2,3) by (intro gather_expr)
  from g have "compile_stmt H ts (mk_token ''UNTIL'') ?st
      = Normal \<lparr>ci = i + 1 + length c, instrs = ins @ [JMP_TRUE (- 1) c],
          stack = UNTIL_block (length ins) (length ins) # stk, lastClosedIf = lci\<rparr>"
    by (simp add: compile_stmt_def mk_token_def emit_def)
  from step_at [OF assms(1) _ this] show ?thesis
    by (simp add: eval_nat_numeral)
qed

lemma close_brace:
  assumes "drop i ts = mk_token ''}'' # rest"
  shows "compile_loop H ts \<lparr>ci = i, instrs = ins, stack = stk, lastClosedIf = lci\<rparr>
       = compile_loop H ts
           ((close_block \<lparr>ci = i, instrs = ins, stack = stk, lastClosedIf = lci\<rparr>)\<lparr>ci := Suc i\<rparr>)"
proof -
  let ?st = "\<lparr>ci = i, instrs = ins, stack = stk, lastClosedIf = lci\<rparr>"
  have "compile_stmt H ts (mk_token ''}'') ?st = Normal (close_block ?st)"
    by (simp add: compile_stmt_def mk_token_def)
  moreover have "ci (close_block ?st) = i"
    by (simp add: close_block_def Let_def split: list.splits block.splits)
  ultimately show ?thesis
    using step_at [OF assms, of ?st H "close_block ?st"] by simp
qed

lemma open_else:
  assumes "drop i ts = mk_token ''ELSE'' # p # rest"
  shows "compile_loop H ts \<lparr>ci = i, instrs = ins, stack = stk, lastClosedIf = Some cif\<rparr>
       = compile_loop H ts \<lparr>ci = i + 2,
           instrs = patch (block_idx cif) (int (length ins) + 1) (ins @ [JMP (- 1)]),
           stack = ELSE_block (length ins) # stk, lastClosedIf = None\<rparr>"
proof -
  let ?st = "\<lparr>ci = i, instrs = ins, stack = stk, lastClosedIf = Some cif\<rparr>"
  have "compile_stmt H ts (mk_token ''ELSE'') ?st
      = Normal \<lparr>ci = i + 1,
           instrs = patch (block_idx cif) (int (length ins) + 1) (ins @ [JMP (- 1)]),
           stack = ELSE_block (length ins) # stk, lastClosedIf = None\<rparr>"
    by (simp add: compile_stmt_def mk_token_def Let_def add.commute)
  from step_at [OF assms _ this] show ?thesis by simp
qed


subsection \<open>Simulation of the compiler on scripts of the grammar\<close>

definition simulates :: "host \<Rightarrow> string list \<Rightarrow> (nat \<Rightarrow> instr list) \<Rightarrow> bool" where
  "simulates H toks code =
     (\<forall>ts i rest ins stk lci.
        drop i ts = map mk_token toks @ rest \<longrightarrow>
        (\<exists>l. compile_loop H ts \<lparr>ci = i, instrs = ins, stack = stk, lastClosedIf = lci\<rparr>
           = compile_loop H ts \<lparr>ci = i + length toks, instrs = ins @ code (length ins),
               stack = stk, lastClosedIf = l\<rparr>))"

lemma simulatesI:
  assumes "\<And>ts i rest ins stk lci. drop i ts = map mk_token toks @ rest \<Longrightarrow>
     \<exists>l. compile_loop H ts \<lparr>ci = i, instrs = ins, stack = stk, lastClosedIf = lci\<rparr>
        = compile_loop H ts \<lparr>ci = i + length toks, instrs = ins @ code (length ins),
            stack = stk, lastClosedIf = l\<rparr>"
  shows "simulates H toks code"
  using assms unfolding simulates_def by blast

lemma simulatesD:
  assumes "simulates H toks code" "drop i ts = map mk_token toks @ rest"
  obtains l where "compile_loop H ts \<lparr>ci = i, instrs = ins, stack = stk, lastClosedIf = lci\<rparr>
        = compile_loop H ts \<lparr>ci = i + length toks, instrs = ins @ code (length ins),
            stack = stk, lastClosedIf = l\<rparr>"
  using assms unfolding simulates_def by blast

lemma simulates_nil: "simulates H [] (\<lambda>b. [])"
  by (rule simulatesI) auto

lemma simulates_append:
  assumes "simulates H t1 c1" "simulates H t2 c2"
  shows "simulates H (t1 @ t2) (\<lambda>b. c1 b @ c2 (b + length (c1 b)))"
proof (rule simulatesI)
  fix ts i rest ins stk lci
  assume d: "drop i ts = map mk_token (t1 @ t2) @ rest"
  then have d1: "drop i ts = map mk_token t1 @ (map mk_token t2 @ rest)" by simp
  from drop_append_shift [OF d1] have d2: "drop (i + length t1) ts = map mk_token t2 @ rest"
    by simp
  from simulatesD [OF assms(1) d1, of ins stk lci] obtain l1 where
    s1: "compile_loop H ts \<lparr>ci = i, instrs = ins, stack = stk, lastClosedIf = lci\<rparr>
        = compile_loop H ts \<lparr>ci = i + length t1, instrs = ins @ c1 (length ins),
            stack = stk, lastClosedIf = l1\<rparr>" by blast
  from simulatesD [OF assms(2) d2, of "ins @ c1 (length ins)" stk l1] obtain l2 where
    s2: "compile_loop H ts \<lparr>ci = i + length t1, instrs = ins @ c1 (length ins),
            stack = stk, lastClosedIf = l1\<rparr>
        = compile_loop H ts \<lparr>ci = i + length t1 + length t2,
            instrs = (ins @ c1 (length ins)) @ c2 (length (ins @ c1 (length ins))),
            stack = stk, lastClosedIf = l2\<rparr>" by blast
  from s1 s2 show "\<exists>l. compile_loop H ts \<lparr>ci = i, instrs = ins, stack = stk, lastClosedIf = lci\<rparr>
        = compile_loop H ts \<lparr>ci = i + length (t1 @ t2),
            instrs = ins @ c1 (length ins) @ c2 (length ins + length (c1 (length ins))),
            stack = stk, lastClosedIf = l\<rparr>"
    by (auto simp: add.assoc)
qed

lemma patch_middle: "patch (length xs) d (xs @ x # ys) = xs @ set_dest d x # ys"
  by (simp add: patch_def)

lemma if_part:
  assumes body: "simulates H toks code" and c: "wf_expr c" "stop \<in> set stoppers"
      and d: "drop i ts = map mk_token (''IF'' # c @ [stop] @ toks @ [''}'']) @ rest"
  shows "compile_loop H ts \<lparr>ci = i, instrs = ins, stack = stk, lastClosedIf = lci\<rparr>
       = compile_loop H ts \<lparr>ci = i + length c + length toks + 3,
           instrs = ins @ JMP_FALSE (int (length ins + 1 + length (code (length ins + 1)))) c
                      # code (length ins + 1),
           stack = stk, lastClosedIf = Some (IF_block (length ins))\<rparr>"
proof -
  let ?n = "length ins"
  from d have d0: "drop i ts = mk_token ''IF'' # map mk_token c @ mk_token stop
      # (map mk_token toks @ mk_token ''}'' # rest)" by simp
  from drop_append_shift [of i ts "mk_token ''IF'' # map mk_token c @ [mk_token stop]"
      "map mk_token toks @ mk_token ''}'' # rest"] d0
  have d1: "drop (i + length c + 2) ts = map mk_token toks @ mk_token ''}'' # rest"
    by (simp add: eval_nat_numeral)
  from drop_append_shift [OF d1]
  have d2: "drop (i + length c + 2 + length toks) ts = mk_token ''}'' # rest" by simp
  have "compile_loop H ts \<lparr>ci = i, instrs = ins, stack = stk, lastClosedIf = lci\<rparr>
      = compile_loop H ts \<lparr>ci = i + length c + 2, instrs = ins @ [JMP_FALSE (- 1) c],
          stack = IF_block ?n # stk, lastClosedIf = lci\<rparr>"
    by (rule open_if [OF d0 c])
  also from simulatesD [OF body d1, of "ins @ [JMP_FALSE (- 1) c]" "IF_block ?n # stk" lci]
  obtain l where "compile_loop H ts \<lparr>ci = i + length c + 2, instrs = ins @ [JMP_FALSE (- 1) c],
          stack = IF_block ?n # stk, lastClosedIf = lci\<rparr>
      = compile_loop H ts \<lparr>ci = i + length c + 2 + length toks,
          instrs = (ins @ [JMP_FALSE (- 1) c]) @ code (length (ins @ [JMP_FALSE (- 1) c])),
          stack = IF_block ?n # stk, lastClosedIf = l\<rparr>" by blast
  also have "\<dots> = compile_loop H ts
      ((close_block \<lparr>ci = i + length c + 2 + length toks,
          instrs = (ins @ [JMP_FALSE (- 1) c]) @ code (length (ins @ [JMP_FALSE (- 1) c])),
          stack = IF_block ?n # stk, lastClosedIf = l\<rparr>)
       \<lparr>ci := Suc (i + length c + 2 + length toks)\<rparr>)"
    by (rule close_brace [OF d2])
  also have "\<dots> = compile_loop H ts \<lparr>ci = i + length c + length toks + 3,
           instrs = ins @ JMP_FALSE (int (?n + 1 + length (code (?n + 1)))) c # code (?n + 1),
           stack = stk, lastClosedIf = Some (IF_block ?n)\<rparr>"
    using patch_middle [of ins _ "JMP_FALSE (- 1) c" "code (Suc ?n)"]
    by (simp add: close_block_def eval_nat_numeral)
  finally show ?thesis .
qed


lemma simulates_if:
  assumes "simulates H toks code" "wf_expr c" "stop \<in> set stoppers"
  shows "simulates H (''IF'' # c @ [stop] @ toks @ [''}''])
           (\<lambda>b. JMP_FALSE (int (b + 1 + length (code (b + 1)))) c # code (b + 1))"
proof (rule simulatesI)
  fix ts i rest ins stk lci
  assume "drop i ts = map mk_token (''IF'' # c @ [stop] @ toks @ [''}'']) @ rest"
  from if_part [OF assms this, of ins stk lci]
  show "\<exists>l. compile_loop H ts \<lparr>ci = i, instrs = ins, stack = stk, lastClosedIf = lci\<rparr>
        = compile_loop H ts \<lparr>ci = i + length (''IF'' # c @ [stop] @ toks @ [''}'']),
            instrs = ins @ JMP_FALSE (int (length ins + 1 + length (code (length ins + 1)))) c
                       # code (length ins + 1),
            stack = stk, lastClosedIf = l\<rparr>"
    by (auto simp: eval_nat_numeral ac_simps)
qed

lemma simulates_if_else:
  assumes a: "simulates H ta ca" and b: "simulates H tb cb"
      and c: "wf_expr c" "stop \<in> set stoppers"
  shows "simulates H (''IF'' # c @ [stop] @ ta @ [''}'', ''ELSE'', p] @ tb @ [''}''])
           (\<lambda>n. JMP_FALSE (int (n + 2 + length (ca (n + 1)))) c # ca (n + 1)
                 @ [JMP (int (n + 2 + length (ca (n + 1))
                           + length (cb (n + 2 + length (ca (n + 1))))))]
                 @ cb (n + 2 + length (ca (n + 1))))"
proof (rule simulatesI)
  fix ts i rest stk lci and ins :: "instr list"
  let ?n = "length ins"
  let ?A = "ca (?n + 1)"
  let ?m = "?n + 2 + length ?A"
  let ?B = "cb ?m"
  let ?i1 = "i + length c + length ta + 3"
  assume d: "drop i ts
      = map mk_token (''IF'' # c @ [stop] @ ta @ [''}'', ''ELSE'', p] @ tb @ [''}'']) @ rest"
  then have d0: "drop i ts = map mk_token (''IF'' # c @ [stop] @ ta @ [''}''])
      @ (mk_token ''ELSE'' # mk_token p # map mk_token tb @ mk_token ''}'' # rest)"
    by simp
  from drop_append_shift [OF d0]
  have d1: "drop ?i1 ts = mk_token ''ELSE'' # mk_token p # (map mk_token tb @ mk_token ''}'' # rest)"
    by (simp add: eval_nat_numeral ac_simps)
  from drop_append_shift [of ?i1 ts "[mk_token ''ELSE'', mk_token p]"] d1
  have d2: "drop (?i1 + 2) ts = map mk_token tb @ mk_token ''}'' # rest"
    by (simp add: eval_nat_numeral ac_simps)
  from drop_append_shift [OF d2]
  have d3: "drop (?i1 + 2 + length tb) ts = mk_token ''}'' # rest" by simp
  let ?ins1 = "ins @ JMP_FALSE (int (?n + 1 + length ?A)) c # ?A"
  let ?ins2 = "ins @ JMP_FALSE (int ?m) c # ?A @ [JMP (- 1)]"
  have p1: "patch (block_idx (IF_block ?n)) (int (length ?ins1) + 1) (?ins1 @ [JMP (- 1)]) = ?ins2"
    using patch_middle [of ins "int (length ?ins1) + 1" "JMP_FALSE (int (?n + 1 + length ?A)) c"
        "?A @ [JMP (- 1)]"]
    by (simp add: eval_nat_numeral)
  have len2: "length ?ins2 = ?m" by simp
  have p2: "patch (?n + 1 + length ?A) (int (length (?ins2 @ ?B))) (?ins2 @ ?B)
      = ins @ JMP_FALSE (int ?m) c # ?A @ [JMP (int (?m + length ?B))] @ ?B"
    using patch_middle [of "ins @ JMP_FALSE (int ?m) c # ?A" "int (length (?ins2 @ ?B))" "JMP (- 1)" ?B]
    by (simp add: eval_nat_numeral)
  have "compile_loop H ts \<lparr>ci = i, instrs = ins, stack = stk, lastClosedIf = lci\<rparr>
      = compile_loop H ts \<lparr>ci = ?i1, instrs = ?ins1, stack = stk,
          lastClosedIf = Some (IF_block ?n)\<rparr>"
    by (rule if_part [OF a c d0])
  also have "\<dots> = compile_loop H ts \<lparr>ci = ?i1 + 2,
      instrs = patch (block_idx (IF_block ?n)) (int (length ?ins1) + 1) (?ins1 @ [JMP (- 1)]),
      stack = ELSE_block (length ?ins1) # stk, lastClosedIf = None\<rparr>"
    by (rule open_else [OF d1])
  also have "\<dots> = compile_loop H ts \<lparr>ci = ?i1 + 2, instrs = ?ins2,
      stack = ELSE_block (?n + 1 + length ?A) # stk, lastClosedIf = None\<rparr>"
    by (simp only: p1) simp
  also from simulatesD [OF b d2, of ?ins2 "ELSE_block (?n + 1 + length ?A) # stk" None]
  obtain l where "compile_loop H ts \<lparr>ci = ?i1 + 2, instrs = ?ins2,
      stack = ELSE_block (?n + 1 + length ?A) # stk, lastClosedIf = None\<rparr>
    = compile_loop H ts \<lparr>ci = ?i1 + 2 + length tb, instrs = ?ins2 @ cb (length ?ins2),
      stack = ELSE_block (?n + 1 + length ?A) # stk, lastClosedIf = l\<rparr>" by blast
  also have "\<dots> = compile_loop H ts \<lparr>ci = ?i1 + 2 + length tb, instrs = ?ins2 @ ?B,
      stack = ELSE_block (?n + 1 + length ?A) # stk, lastClosedIf = l\<rparr>"
    by (simp only: len2)
  also have "\<dots> = compile_loop H ts
      ((close_block \<lparr>ci = ?i1 + 2 + length tb, instrs = ?ins2 @ ?B,
          stack = ELSE_block (?n + 1 + length ?A) # stk, lastClosedIf = l\<rparr>)
       \<lparr>ci := Suc (?i1 + 2 + length tb)\<rparr>)"
    by (rule close_brace [OF d3])
  also have "\<dots> = compile_loop H ts \<lparr>ci = Suc (?i1 + 2 + length tb),
      instrs = ins @ JMP_FALSE (int ?m) c # ?A @ [JMP (int (?m + length ?B))] @ ?B,
      stack = stk, lastClosedIf = l\<rparr>"
    using p2 by (simp add: close_block_def)
  finally show "\<exists>l. compile_loop H ts \<lparr>ci = i, instrs = ins, stack = stk, lastClosedIf = lci\<rparr>
        = compile_loop H ts
            \<lparr>ci = i + length (''IF'' # c @ [stop] @ ta @ [''}'', ''ELSE'', p] @ tb @ [''}'']),
             instrs = ins @ JMP_FALSE (int ?m) c # ?A @ [JMP (int (?m + length ?B))] @ ?B,
             stack = stk, lastClosedIf = l\<rparr>"
    by (auto simp: eval_nat_numeral ac_simps)
qed

lemma simulates_until:
  assumes body: "simulates H toks code" and c: "wf_expr c" "stop \<in> set stoppers"
  shows "simulates H (''UNTIL'' # c @ [stop] @ toks @ [''}''])
           (\<lambda>n. JMP_TRUE (int (n + 3 + length (code (n + 1)))) c # code (n + 1)
                 @ [YIELD, JMP (int n)])"
proof (rule simulatesI)
  fix ts i rest stk lci and ins :: "instr list"
  let ?n = "length ins"
  let ?C = "code (?n + 1)"
  assume d: "drop i ts = map mk_token (''UNTIL'' # c @ [stop] @ toks @ [''}'']) @ rest"
  then have d0: "drop i ts = mk_token ''UNTIL'' # map mk_token c @ mk_token stop
      # (map mk_token toks @ mk_token ''}'' # rest)" by simp
  from drop_append_shift [of i ts "mk_token ''UNTIL'' # map mk_token c @ [mk_token stop]"
      "map mk_token toks @ mk_token ''}'' # rest"] d0
  have d1: "drop (i + length c + 2) ts = map mk_token toks @ mk_token ''}'' # rest"
    by (simp add: eval_nat_numeral)
  from drop_append_shift [OF d1]
  have d2: "drop (i + length c + 2 + length toks) ts = mk_token ''}'' # rest" by simp
  have "compile_loop H ts \<lparr>ci = i, instrs = ins, stack = stk, lastClosedIf = lci\<rparr>
      = compile_loop H ts \<lparr>ci = i + length c + 2, instrs = ins @ [JMP_TRUE (- 1) c],
          stack = UNTIL_block ?n ?n # stk, lastClosedIf = lci\<rparr>"
    by (rule open_until [OF d0 c])
  also from simulatesD [OF body d1, of "ins @ [JMP_TRUE (- 1) c]" "UNTIL_block ?n ?n # stk" lci]
  obtain l where "compile_loop H ts \<lparr>ci = i + length c + 2, instrs = ins @ [JMP_TRUE (- 1) c],
          stack = UNTIL_block ?n ?n # stk, lastClosedIf = lci\<rparr>
      = compile_loop H ts \<lparr>ci = i + length c + 2 + length toks,
          instrs = (ins @ [JMP_TRUE (- 1) c]) @ code (length (ins @ [JMP_TRUE (- 1) c])),
          stack = UNTIL_block ?n ?n # stk, lastClosedIf = l\<rparr>" by blast
  also have "\<dots> = compile_loop H ts
      ((close_block \<lparr>ci = i + length c + 2 + length toks,
          instrs = (ins @ [JMP_TRUE (- 1) c]) @ code (length (ins @ [JMP_TRUE (- 1) c])),
          stack = UNTIL_block ?n ?n # stk, lastClosedIf = l\<rparr>)
       \<lparr>ci := Suc (i + length c + 2 + length toks)\<rparr>)"
    by (rule close_brace [OF d2])
  also have "\<dots> = compile_loop H ts \<lparr>ci = Suc (i + length c + 2 + length toks),
           instrs = ins @ JMP_TRUE (int (?n + 3 + length ?C)) c # ?C @ [YIELD, JMP (int ?n)],
           stack = stk, lastClosedIf = l\<rparr>"
    using patch_middle [of ins _ "JMP_TRUE (- 1) c" "code (Suc ?n) @ [YIELD, JMP (int ?n)]"]
    by (simp add: close_block_def eval_nat_numeral)
  finally show "\<exists>l. compile_loop H ts \<lparr>ci = i, instrs = ins, stack = stk, lastClosedIf = lci\<rparr>
        = compile_loop H ts \<lparr>ci = i + length (''UNTIL'' # c @ [stop] @ toks @ [''}'']),
             instrs = ins @ JMP_TRUE (int (?n + 3 + length ?C)) c # ?C @ [YIELD, JMP (int ?n)],
             stack = stk, lastClosedIf = l\<rparr>"
    by (auto simp: eval_nat_numeral ac_simps)
qed

lemma simulates_skip:
  assumes "a \<noteq> ''}''" "a \<notin> set statement_keywords"
  shows "simulates H ([a]) (\<lambda>b. [])"
proof (rule simulatesI, rule exI)
  fix ts i rest lci stk and ins :: "instr list"
  assume "drop i ts = map mk_token ([a]) @ rest"
  then have "drop i ts = mk_token a # rest" by simp
  from sim_skip [OF this assms]
  show "compile_loop H ts \<lparr>ci = i, instrs = ins, stack = stk, lastClosedIf = lci\<rparr>
      = compile_loop H ts \<lparr>ci = i + length ([a]), instrs = ins @ [],
          stack = stk, lastClosedIf = lci\<rparr>"
    by (simp add: eval_nat_numeral ac_simps)
qed

lemma simulates_print:
  assumes "wf_expr e" "stop \<in> set stoppers" "stop \<noteq> ''AT''"
  shows "simulates H (''PRINT'' # e @ [stop]) (\<lambda>b. [PRINT e None])"
proof (rule simulatesI, rule exI)
  fix ts i rest lci stk and ins :: "instr list"
  assume "drop i ts = map mk_token (''PRINT'' # e @ [stop]) @ rest"
  then have "drop i ts = mk_token ''PRINT'' # map mk_token e @ mk_token stop # rest" by simp
  from sim_print [OF this assms]
  show "compile_loop H ts \<lparr>ci = i, instrs = ins, stack = stk, lastClosedIf = lci\<rparr>
      = compile_loop H ts \<lparr>ci = i + length (''PRINT'' # e @ [stop]), instrs = ins @ [PRINT e None],
          stack = stk, lastClosedIf = lci\<rparr>"
    by (simp add: eval_nat_numeral ac_simps)
qed

lemma simulates_print_at:
  assumes "wf_expr e"
  shows "simulates H (''PRINT'' # e @ [''AT'', p1, x, p2, y, p3]) (\<lambda>b. [PRINT e (Some (x, y))])"
proof (rule simulatesI, rule exI)
  fix ts i rest lci stk and ins :: "instr list"
  assume "drop i ts = map mk_token (''PRINT'' # e @ [''AT'', p1, x, p2, y, p3]) @ rest"
  then have "drop i ts = mk_token ''PRINT'' # map mk_token e @ mk_token ''AT'' # mk_token p1 # mk_token x # mk_token p2 # mk_token y # mk_token p3 # rest" by simp
  from sim_print_at [OF this assms]
  show "compile_loop H ts \<lparr>ci = i, instrs = ins, stack = stk, lastClosedIf = lci\<rparr>
      = compile_loop H ts \<lparr>ci = i + length (''PRINT'' # e @ [''AT'', p1, x, p2, y, p3]), instrs = ins @ [PRINT e (Some (x, y))],
          stack = stk, lastClosedIf = lci\<rparr>"
    by (simp add: eval_nat_numeral ac_simps)
qed

lemma simulates_lock:
  assumes "wf_expr e" "stop \<in> set stoppers"
  shows "simulates H ([''LOCK'', t, p] @ e @ [stop]) (\<lambda>b. [LOCK t e])"
proof (rule simulatesI, rule exI)
  fix ts i rest lci stk and ins :: "instr list"
  assume "drop i ts = map mk_token ([''LOCK'', t, p] @ e @ [stop]) @ rest"
  then have "drop i ts = mk_token ''LOCK'' # mk_token t # mk_token p # map mk_token e @ mk_token stop # rest" by simp
  from sim_lock [OF this assms]
  show "compile_loop H ts \<lparr>ci = i, instrs = ins, stack = stk, lastClosedIf = lci\<rparr>
      = compile_loop H ts \<lparr>ci = i + length ([''LOCK'', t, p] @ e @ [stop]), instrs = ins @ [LOCK t e],
          stack = stk, lastClosedIf = lci\<rparr>"
    by (simp add: eval_nat_numeral ac_simps)
qed

lemma simulates_set:
  assumes "wf_expr e" "stop \<in> set stoppers"
  shows "simulates H ([''SET'', t, p] @ e @ [stop]) (\<lambda>b. [SET_VAR t e])"
proof (rule simulatesI, rule exI)
  fix ts i rest lci stk and ins :: "instr list"
  assume "drop i ts = map mk_token ([''SET'', t, p] @ e @ [stop]) @ rest"
  then have "drop i ts = mk_token ''SET'' # mk_token t # mk_token p # map mk_token e @ mk_token stop # rest" by simp
  from sim_set [OF this assms]
  show "compile_loop H ts \<lparr>ci = i, instrs = ins, stack = stk, lastClosedIf = lci\<rparr>
      = compile_loop H ts \<lparr>ci = i + length ([''SET'', t, p] @ e @ [stop]), instrs = ins @ [SET_VAR t e],
          stack = stk, lastClosedIf = lci\<rparr>"
    by (simp add: eval_nat_numeral ac_simps)
qed

lemma simulates_declare:
  "simulates H ([''DECLARE'', ''PARAMETER'', n]) (\<lambda>b. [SET_VAR n [''0'']])"
proof (rule simulatesI, rule exI)
  fix ts i rest lci stk and ins :: "instr list"
  assume "drop i ts = map mk_token ([''DECLARE'', ''PARAMETER'', n]) @ rest"
  then have "drop i ts = mk_token ''DECLARE'' # mk_token ''PARAMETER'' # mk_token n # rest" by simp
  from sim_declare [OF this]
  show "compile_loop H ts \<lparr>ci = i, instrs = ins, stack = stk, lastClosedIf = lci\<rparr>
      = compile_loop H ts \<lparr>ci = i + length ([''DECLARE'', ''PARAMETER'', n]), instrs = ins @ [SET_VAR n [''0'']],
          stack = stk, lastClosedIf = lci\<rparr>"
    by (simp add: eval_nat_numeral ac_simps)
qed

lemma simulates_wait:
  assumes "n \<noteq> ''UNTIL''"
  shows "simulates H ([''WAIT'', n]) (\<lambda>b. [WAIT (parse_float H n)])"
proof (rule simulatesI, rule exI)
  fix ts i rest lci stk and ins :: "instr list"
  assume "drop i ts = map mk_token ([''WAIT'', n]) @ rest"
  then have "drop i ts = mk_token ''WAIT'' # mk_token n # rest" by simp
  from sim_wait [OF this assms]
  show "compile_loop H ts \<lparr>ci = i, instrs = ins, stack = stk, lastClosedIf = lci\<rparr>
      = compile_loop H ts \<lparr>ci = i + length ([''WAIT'', n]), instrs = ins @ [WAIT (parse_float H n)],
          stack = stk, lastClosedIf = lci\<rparr>"
    by (simp add: eval_nat_numeral ac_simps)
qed

lemma simulates_wait_until:
  assumes "wf_expr e" "stop \<in> set stoppers"
  shows "simulates H ([''WAIT'', ''UNTIL''] @ e @ [stop]) (\<lambda>b. [JMP_TRUE (int b + 3) e, YIELD, JMP (int b)])"
proof (rule simulatesI, rule exI)
  fix ts i rest lci stk and ins :: "instr list"
  assume "drop i ts = map mk_token ([''WAIT'', ''UNTIL''] @ e @ [stop]) @ rest"
  then have "drop i ts = mk_token ''WAIT'' # mk_token ''UNTIL'' # map mk_token e @ mk_token stop # rest" by simp
  from sim_wait_until [OF this assms]
  show "compile_loop H ts \<lparr>ci = i, instrs = ins, stack = stk, lastClosedIf = lci\<rparr>
      = compile_loop H ts \<lparr>ci = i + length ([''WAIT'', ''UNTIL''] @ e @ [stop]), instrs = ins @ [JMP_TRUE (int (length ins) + 3) e, YIELD, JMP (int (length ins))],
          stack = stk, lastClosedIf = lci\<rparr>"
    by (simp add: eval_nat_numeral ac_simps)
qed

lemma simulates_stage:
  "simulates H ([''STAGE'']) (\<lambda>b. [STAGE])"
proof (rule simulatesI, rule exI)
  fix ts i rest lci stk and ins :: "instr list"
  assume "drop i ts = map mk_token ([''STAGE'']) @ rest"
  then have "drop i ts = mk_token ''STAGE'' # rest" by simp
  from sim_stage [OF this]
  show "compile_loop H ts \<lparr>ci = i, instrs = ins, stack = stk, lastClosedIf = lci\<rparr>
      = compile_loop H ts \<lparr>ci = i + length ([''STAGE'']), instrs = ins @ [STAGE],
          stack = stk, lastClosedIf = lci\<rparr>"
    by (simp add: eval_nat_numeral ac_simps)
qed

lemma simulates_clear:
  "simulates H ([''CLEARSCREEN'']) (\<lambda>b. [CLEAR])"
proof (rule simulatesI, rule exI)
  fix ts i rest lci stk and ins :: "instr list"
  assume "drop i ts = map mk_token ([''CLEARSCREEN'']) @ rest"
  then have "drop i ts = mk_token ''CLEARSCREEN'' # rest" by simp
  from sim_clear [OF this]
  show "compile_loop H ts \<lparr>ci = i, instrs = ins, stack = stk, lastClosedIf = lci\<rparr>
      = compile_loop H ts \<lparr>ci = i + length ([''CLEARSCREEN'']), instrs = ins @ [CLEAR],
          stack = stk, lastClosedIf = lci\<rparr>"
    by (simp add: eval_nat_numeral ac_simps)
qed

lemma simulates_layout:
  "wf s \<Longrightarrow> simulates H (unparse s) (\<lambda>b. layout H b s)"
  "wf_block ss \<Longrightarrow> simulates H (unparse_block ss) (\<lambda>b. layout_block H b ss)"
proof (induction s and ss rule: unparse_unparse_block.induct)
  case (1 a)
  then show ?case using simulates_skip [of a H] by simp
next
  case (2 e stop)
  then show ?case using simulates_print [of e stop H] by (auto simp: stoppers_def)
next
  case (3 e p1 x p2 y p3)
  then show ?case using simulates_print_at [of e H p1 x p2 y p3] by simp
next
  case (4 t p e stop)
  then show ?case using simulates_lock [of e stop H t p] by simp
next
  case (5 n p e stop)
  then show ?case using simulates_set [of e stop H n p] by simp
next
  case (6 n)
  then show ?case using simulates_declare [of H n] by simp
next
  case (7 n)
  then show ?case using simulates_wait [of n H] by simp
next
  case (8 e stop)
  then show ?case using simulates_wait_until [of e stop H] by simp
next
  case 9
  then show ?case using simulates_stage [of H] by simp
next
  case 10
  then show ?case using simulates_clear [of H] by simp
next
  case (11 c stop body)
  then show ?case
    using simulates_if [of H "unparse_block body" "\<lambda>b. layout_block H b body" c stop]
    by (simp add: Let_def)
next
  case (12 c stop a p b)
  then show ?case
    using simulates_if_else [of H "unparse_block a" "\<lambda>n. layout_block H n a"
        "unparse_block b" "\<lambda>n. layout_block H n b" c stop p]
    by (simp add: Let_def)
next
  case (13 c stop body)
  then show ?case
    using simulates_until [of H "unparse_block body" "\<lambda>b. layout_block H b body" c stop]
    by (simp add: Let_def)
next
  case 14
  then show ?case by (simp add: simulates_nil)
next
  case (15 s ss)
  then show ?case
    using simulates_append [of H "unparse s" "\<lambda>b. layout H b s" "unparse_block ss"
        "\<lambda>b. layout_block H b ss"]
    by (simp add: Let_def)
qed


lemma compile_loop_done: "length ts \<le> ci st \<Longrightarrow> compile_loop H ts st = Normal st"
  by (subst compile_loop.simps) simp

lemma compile_state_grammar:
  assumes "wf_block ss" "tokenize src = map mk_token (unparse_block ss)"
  shows "\<exists>l. compile_state H src
           = Normal \<lparr>ci = length (unparse_block ss), instrs = layout_block H 0 ss,
                     stack = [], lastClosedIf = l\<rparr>"
proof -
  let ?ts = "tokenize src"
  from assms(2) have "drop 0 ?ts = map mk_token (unparse_block ss) @ []" by simp
  from simulatesD [OF simulates_layout(2) [OF assms(1)] this, of H "[]" "[]" None]
  obtain l where "compile_loop H ?ts init_cstate
      = compile_loop H ?ts \<lparr>ci = length (unparse_block ss), instrs = layout_block H 0 ss,
          stack = [], lastClosedIf = l\<rparr>"
    by (auto simp: init_cstate_def)
  moreover have "length ?ts = length (unparse_block ss)" using assms(2) by simp
  ultimately show ?thesis
    by (auto simp: compile_state_def compile_loop_done)
qed


subsection \<open>Jump destinations\<close>

fun dest_of :: "instr \<Rightarrow> int option" where
  "dest_of (JMP d) = Some d"
| "dest_of (JMP_TRUE d e) = Some d"
| "dest_of (JMP_FALSE d e) = Some d"
| "dest_of other = None"

definition dests_within :: "int \<Rightarrow> int \<Rightarrow> instr list \<Rightarrow> bool" where
  "dests_within lo hi prog = list_all (\<lambda>c. case dest_of c of None \<Rightarrow> True | Some d \<Rightarrow> lo \<le> d \<and> d \<le> hi) prog"

definition jumps_resolved :: "instr list \<Rightarrow> bool" where
  "jumps_resolved prog = dests_within 0 (int (length prog)) prog"

lemma dests_within_append [simp]:
  "dests_within lo hi (xs @ ys) = (dests_within lo hi xs \<and> dests_within lo hi ys)"
  by (simp add: dests_within_def)

lemma dests_within_mono:
  "dests_within lo hi prog \<Longrightarrow> lo' \<le> lo \<Longrightarrow> hi \<le> hi' \<Longrightarrow> dests_within lo' hi' prog"
  unfolding dests_within_def list_all_iff by (auto split: option.splits)

lemma length_layout_base:
  "length (layout H b s) = length (layout H 0 s)"
  "length (layout_block H b ss) = length (layout_block H 0 ss)"
proof (induction s and ss arbitrary: b and b rule: unparse_unparse_block.induct)
  case (11 c stop body)
  from "11.IH" [of "b + 1"] "11.IH" [of 1] show ?case by (simp add: Let_def)
next
  case (12 c stop a p b')
  from "12.IH"(1) [of "b + 1"] "12.IH"(1) [of 1]
       "12.IH"(2) [of "b + 2 + length (layout_block H (b + 1) a)"]
       "12.IH"(2) [of "2 + length (layout_block H 1 a)"]
  show ?case by (simp add: Let_def)
next
  case (13 c stop body)
  from "13.IH" [of "b + 1"] "13.IH" [of 1] show ?case by (simp add: Let_def)
next
  case (15 s ss)
  from "15.IH"(1) [of b] "15.IH"(2) [of "b + length (layout H b s)"]
       "15.IH"(2) [of "length (layout H 0 s)"]
  show ?case by (simp add: Let_def)
qed simp_all

lemma layout_dests:
  "dests_within (int b) (int (b + length (layout H b s))) (layout H b s)"
  "dests_within (int b) (int (b + length (layout_block H b ss))) (layout_block H b ss)"
proof (induction s and ss arbitrary: b and b rule: unparse_unparse_block.induct)
  case (11 c stop body)
  from "11.IH" [of "b + 1"] show ?case
    by (auto simp: Let_def dests_within_def elim!: dests_within_mono [unfolded dests_within_def])
next
  case (12 c stop a p b')
  let ?A = "layout_block H (b + 1) a"
  let ?B = "layout_block H (b + 2 + length ?A) b'"
  have "dests_within (int b) (int (b + (length ?A + length ?B + 2))) ?A"
    by (rule dests_within_mono [OF "12.IH"(1) [of "b + 1"]]) auto
  moreover have "dests_within (int b) (int (b + (length ?A + length ?B + 2))) ?B"
    by (rule dests_within_mono [OF "12.IH"(2) [of "b + 2 + length ?A"]]) auto
  ultimately show ?case by (simp add: Let_def dests_within_def)
next
  case (13 c stop body)
  let ?C = "layout_block H (b + 1) body"
  have "dests_within (int b) (int (b + (length ?C + 3))) ?C"
    by (rule dests_within_mono [OF "13.IH" [of "b + 1"]]) auto
  then show ?case by (simp add: Let_def dests_within_def ac_simps)
next
  case (15 s ss)
  let ?S = "layout H b s"
  let ?R = "layout_block H (b + length ?S) ss"
  have "dests_within (int b) (int (b + (length ?S + length ?R))) ?S"
    by (rule dests_within_mono [OF "15.IH"(1) [of b]]) auto
  moreover have "dests_within (int b) (int (b + (length ?S + length ?R))) ?R"
    by (rule dests_within_mono [OF "15.IH"(2) [of "b + length ?S"]]) auto
  ultimately show ?case by (simp add: Let_def)
qed (simp_all add: dests_within_def)

fun balanced :: "nat \<Rightarrow> string list \<Rightarrow> bool" where
  "balanced depth [] = (depth = 0)"
| "balanced depth (t # ts) =
     (if t = ''{'' then balanced (depth + 1) ts
      else if t = ''}'' then 0 < depth \<and> balanced (depth - 1) ts
      else balanced depth ts)"

text \<open>
  C4, as stated, fails: in \<open>IF X { PRINT 1 }\<close> the braces are balanced, but \<open>PRINT\<close> gathers up
  to the next \<open>.\<close>, \<open>{\<close> or \<open>AT\<close> and so takes the closing brace into its expression. The
  \<open>IF\<close> entry stays on the block stack and its \<open>JMP_FALSE\<close> keeps the placeholder \<open>-1\<close>.
\<close>

theorem balanced_braces_unresolved_jump:
  "balanced 0 (map val (tokenize ''IF X { PRINT 1 }''))
   \<and> compile_state sample_host ''IF X { PRINT 1 }''
       = Normal \<lparr>ci = 7, instrs = [JMP_FALSE (- 1) [''X''], PRINT [''1'', ''}''] None],
                 stack = [IF_block 0], lastClosedIf = None\<rparr>"
  by (simp add: lex_simps compile_simps)

text \<open>
  C4, amended. For every script whose token sequence is that of a well-formed statement list
  (every expression is followed by its \<open>.\<close>, \<open>{\<close> or \<open>AT\<close>, every body is closed by its own
  \<open>}\<close>, every \<open>ELSE\<close> follows the \<open>}\<close> of its \<open>IF\<close>), compilation returns a state whose block
  stack is empty, and in the returned program every jump destination lies in \<open>[0, len]\<close>; in
  particular no \<open>-1\<close> is left.
\<close>

theorem grammar_scripts_resolved:
  assumes "wf_block ss" "tokenize src = map mk_token (unparse_block ss)"
  shows "\<exists>st. compile_state H src = Normal st \<and> stack st = []
           \<and> compile H src = Normal (instrs st) \<and> jumps_resolved (instrs st)"
  using compile_state_grammar [OF assms, of H] layout_dests(2) [of 0 H ss]
  by (auto simp: compile_def jumps_resolved_def)


subsection \<open>Where the code of a statement lies\<close>









section \<open>Control flow of compiled scripts\<close>










lemma vm_eval_pc [simp]: "vm_eval H (s\<lparr>pc := p\<rparr>) e = vm_eval H s e"
  by (simp add: vm_eval_def eval_text_def)









lemma pc_same [simp]: "pc s = p \<Longrightarrow> s\<lparr>pc := p\<rparr> = s"
  by auto















section \<open>A worked example\<close>

definition example_script :: string where
  "example_script = ''IF X > 0.5 { PRINT 1 . } ELSE { WAIT UNTIL Y . }''"

definition example_stmts :: "stmt list" where
  "example_stmts =
     [SIfElse [''X'', ''>'', ''0''] ''.'' [SSkip ''5'', SSkip ''{'', SPrint [''1''] ''.'']
        ''{'' [SWaitUntil [''Y''] ''.'']]"

definition example_program :: "instr list" where
  "example_program =
     [JMP_FALSE 3 [''X'', ''>'', ''0''], PRINT [''1''] None, JMP 6,
      JMP_TRUE 6 [''Y''], YIELD, JMP 3]"


lemma example_tokens: "tokenize example_script = map mk_token (unparse_block example_stmts)"
  by (simp add: example_script_def example_stmts_def lex_simps)

lemma example_wf: "wf_block example_stmts"
  by (simp add: example_stmts_def wf_expr_def stoppers_def statement_keywords_def)




theorem grammar_scripts_resolved_witness:
  "wf_block example_stmts
   \<and> tokenize example_script = map mk_token (unparse_block example_stmts)
   \<and> compile_state sample_host example_script
       = Normal \<lparr>ci = 18, instrs = example_program, stack = [], lastClosedIf = None\<rparr>
   \<and> jumps_resolved example_program"
proof -
  have cs: "compile_state sample_host example_script
       = Normal \<lparr>ci = 18, instrs = example_program, stack = [], lastClosedIf = None\<rparr>"
    by (simp add: example_script_def example_program_def lex_simps compile_simps)
  from grammar_scripts_resolved [OF example_wf example_tokens, of sample_host] cs
  show ?thesis using example_wf example_tokens by simp
qed


section \<open>Compile errors\<close>

text \<open>
  C9, as stated, fails: \<open>LOCK\<close> never looks at the token in the place of \<open>TO\<close>. The script
  \<open>LOCK THROTTLE 1 .\<close> compiles to one \<open>LOCK\<close> instruction with an empty expression, and
  \<open>run\<close> starts the machine.
\<close>

theorem lock_without_to_compiles:
  "compile sample_host ''LOCK THROTTLE 1 .'' = Normal [LOCK ''THROTTLE'' []]
   \<and> running (run sample_host ''LOCK THROTTLE 1 .'' (new_vm sample_physics))
   \<and> logged (run sample_host ''LOCK THROTTLE 1 .'' (new_vm sample_physics))
       = [Log (VStr ''Program Loaded.'') (Some ''sys'') None]"
proof -
  have "compile sample_host ''LOCK THROTTLE 1 .'' = Normal [LOCK ''THROTTLE'' []]"
    by (simp add: lex_simps compile_simps)
  then show ?thesis by (simp add: run_def new_vm_def emit_log_def)
qed

lemma compile_stmt_throws:
  "compile_stmt H ts t st = Throw err \<Longrightarrow> err = TypeError_undefined ''val''"
  unfolding compile_stmt_def val_at_def Let_def
  by (auto split: if_splits prod.splits option.splits completion.splits)

lemma compile_loop_throws:
  "compile_loop H ts st = Throw err \<Longrightarrow> err = TypeError_undefined ''val''"
proof (induction H ts st rule: compile_loop.induct)
  case (1 H ts st)
  show ?case
  proof (cases "ci st < length ts")
    case False
    with "1.prems" show ?thesis by (subst (asm) compile_loop.simps) simp
  next
    case True
    show ?thesis
    proof (cases "compile_step H ts st")
      case (Throw e)
      with True "1.prems" have "e = err" by (subst (asm) compile_loop.simps) simp
      with Throw show ?thesis
        by (auto simp: compile_step_def Let_def split: if_splits dest: compile_stmt_throws)
    next
      case (Normal st')
      with True "1.prems" have "compile_loop H ts (st'\<lparr>ci := ci st' + 1\<rparr>) = Throw err"
        by (subst (asm) compile_loop.simps) simp
      from "1.IH" [OF True Normal this] show ?thesis .
    qed
  qed
qed

text \<open>
  C9, amended. The only error \<open>compile\<close> raises is the type error of reading \<open>val\<close> from a
  token position past the end of the token list, as for a script that ends with \<open>LOCK\<close>.
  Whenever it is raised, \<open>run\<close> returns normally, appends \<open>Compile Error:\<close> followed by the
  error's message to the log with level \<open>err\<close>, and leaves the running flag as it was; a
  machine that was not running stays not running.
\<close>

theorem run_catches_compile_error:
  assumes "compile H code = Throw err"
  shows "err = TypeError_undefined ''val''
       \<and> running (run H code s) = running s
       \<and> logged (run H code s)
           = logged s @ [Log (VStr (''Compile Error: '' @ error_message H err)) (Some ''err'') None]"
proof -
  from assms have "compile_loop H (tokenize code) init_cstate = Throw err"
    by (simp add: compile_def compile_state_def split: completion.splits)
  then have "err = TypeError_undefined ''val''" by (rule compile_loop_throws)
  with assms show ?thesis by (simp add: run_def emit_log_def)
qed

theorem run_catches_compile_error_witness:
  "compile sample_host ''PRINT 1 . LOCK'' = Throw (TypeError_undefined ''val'')
   \<and> \<not> running (new_vm sample_physics)
   \<and> \<not> running (run sample_host ''PRINT 1 . LOCK'' (new_vm sample_physics))
   \<and> logged (run sample_host ''PRINT 1 . LOCK'' (new_vm sample_physics))
       = [Log (VStr (''Compile Error: '' @ sample_message (TypeError_undefined ''val''))) (Some ''err'') None]"
proof -
  have c: "compile sample_host ''PRINT 1 . LOCK'' = Throw (TypeError_undefined ''val'')"
    by (simp add: lex_simps compile_simps)
  from run_catches_compile_error [OF c, of "new_vm sample_physics"] c
  show ?thesis by (simp add: new_vm_def sample_host_def)
qed

section \<open>Expression evaluation\<close>

text \<open>
  C8. For \<open>PRINT ROUND(3.7) .\<close> the lexer splits \<open>3.7\<close> at the dot, the compiler's gather
  stops at that dot, and the captured expression is \<open>ROUND ( 3\<close>. Joined with spaces, the text
  does not match the \<open>ROUND\<close> pattern (which wants the parenthesis right after the name), so the
  text handed to the evaluator is \<open>ROUND ( 3\<close>, a syntax error, and the value is 0, not 4.
\<close>

theorem round_expression_is_zero:
  "compile H ''PRINT ROUND(3.7) .'' = Normal [PRINT [''ROUND'', ''('', ''3''] None]
   \<and> eval_text H (new_vm p) [''ROUND'', ''('', ''3''] = Normal ''ROUND ( 3''
   \<and> vm_eval sample_host (new_vm sample_physics) [''ROUND'', ''('', ''3''] = Normal (VNum (Fin 0))"
proof -
  have "compile H ''PRINT ROUND(3.7) .'' = Normal [PRINT [''ROUND'', ''('', ''3''] None]"
    by (simp add: lex_simps compile_simps)
  moreover have t: "eval_text H (new_vm p) [''ROUND'', ''('', ''3''] = Normal ''ROUND ( 3''" for H p
    by (simp add: eval_text_def telemetry_text_def replace_literal_def literal_match_def
        starts_with_def heading_match_def round_match_def strip_prefix_def for_in_def new_vm_def)
  moreover have "sample_eval ''ROUND ( 3'' = Throw SyntaxError"
    by (simp add: sample_eval_def unbalanced_parens_def)
  then have "vm_eval sample_host (new_vm sample_physics) [''ROUND'', ''('', ''3''] = Normal (VNum (Fin 0))"
    using t [of sample_host sample_physics] by (simp add: vm_eval_def sample_host_def)
  ultimately show ?thesis by simp
qed

text \<open>
  C6, as stated, fails for division by zero: evaluating \<open>1 / 0\<close> does not throw, and the
  evaluator returns \<open>Infinity\<close>.
\<close>

theorem division_by_zero_is_infinity:
  "vm_eval sample_host (new_vm sample_physics) [''1'', ''/'', ''0''] = Normal (VNum PosInf)"
  by (simp add: eval_simps new_vm_def signed_inf_def)

text \<open>
  C6, amended. If the substitutions complete and the evaluation of the resulting text throws
  (a malformed expression, an unresolved symbol), the evaluator returns 0 and every instruction
  that carries the expression completes normally, with 0 as the value: \<open>PRINT\<close> logs 0,
  \<open>LOCK\<close> and \<open>SET_VAR\<close> store 0, \<open>JMP_FALSE\<close> jumps and \<open>JMP_TRUE\<close> falls through.
\<close>

theorem eval_failure_is_zero:
  assumes "eval_text H s tokens = Normal str" and "js_eval H str = Throw err"
  shows "vm_eval H s tokens = Normal (VNum (Fin 0))
       \<and> exec_instr H (PRINT tokens pos) s
           = Continue (advance (emit_log (VNum (Fin 0)) (Some ''info'') pos s))
       \<and> exec_instr H (LOCK target tokens) s
           = Continue (advance (s\<lparr>phys := do_lock H target (VNum (Fin 0)) (phys s)\<rparr>))
       \<and> exec_instr H (SET_VAR target tokens) s
           = Continue (advance (s\<lparr>vars := store target (VNum (Fin 0)) (vars s)\<rparr>))
       \<and> exec_instr H (JMP_FALSE dest tokens) s = Continue (s\<lparr>pc := dest\<rparr>)
       \<and> exec_instr H (JMP_TRUE dest tokens) s = Continue (s\<lparr>pc := pc s + 1\<rparr>)"
proof -
  from assms have "vm_eval H s tokens = Normal (VNum (Fin 0))" by (simp add: vm_eval_def)
  then show ?thesis by simp
qed

theorem eval_failure_is_zero_witness:
  "eval_text sample_host (new_vm sample_physics) [''1'', ''+'', ''(''] = Normal ''1 + (''
   \<and> js_eval sample_host ''1 + ('' = Throw SyntaxError
   \<and> vm_eval sample_host (new_vm sample_physics) [''1'', ''+'', ''(''] = Normal (VNum (Fin 0))
   \<and> exec_instr sample_host (PRINT [''1'', ''+'', ''(''] None) (new_vm sample_physics)
       = Continue ((new_vm sample_physics)\<lparr>logged := [Log (VNum (Fin 0)) (Some ''info'') None], pc := 1\<rparr>)"
proof -
  have t: "eval_text sample_host (new_vm sample_physics) [''1'', ''+'', ''(''] = Normal ''1 + (''"
    by (simp add: eval_text_def telemetry_text_def replace_literal_def literal_match_def
        starts_with_def heading_match_def round_match_def strip_prefix_def for_in_def new_vm_def)
  have e: "js_eval sample_host ''1 + ('' = Throw SyntaxError"
    by (simp add: sample_host_def sample_eval_def unbalanced_parens_def)
  from eval_failure_is_zero [OF t e, of None] t e
  show ?thesis by (simp add: advance_def emit_log_def new_vm_def)
qed


section \<open>Substitution and token boundaries\<close>

text \<open>
  C7, as stated, fails. The telemetry substitutions are plain global replacements of a
  spelling: \<open>APOAPSIS\<close> is replaced inside the token \<open>ETA:APOAPSIS\<close> (so the later
  \<open>ETA:APOAPSIS\<close> replacement never applies) and \<open>ALTITUDE\<close> inside \<open>MAXALTITUDE\<close>. The
  variable substitution asks for word boundaries, not token boundaries: the variable \<open>X\<close> is
  replaced inside the token \<open>X:Y\<close>. The sample vessel has apoapsis 100 and altitude 0.
\<close>

theorem substitution_inside_tokens:
  "eval_text sample_host (new_vm sample_physics) [''ETA:APOAPSIS''] = Normal ''ETA:100''
   \<and> eval_text sample_host (new_vm sample_physics) [''MAXALTITUDE''] = Normal ''MAX0''
   \<and> eval_text sample_host ((new_vm sample_physics)\<lparr>vars := [(''X'', VNum (Fin 5))]\<rparr>) [''X:Y'']
       = Normal ''5:Y''"
  by (simp add: eval_simps new_vm_def sample_physics_def)

definition last_or :: "char option \<Rightarrow> string \<Rightarrow> char option" where
  "last_or prev xs = (if xs = [] then prev else Some (last xs))"

lemma replace_all_skip:
  "replace_all m prev (length xs) (xs @ rest) = replace_all m (last_or prev xs) 0 rest"
  by (induction xs arbitrary: prev) (auto simp: last_or_def)

lemma copy_inside_word:
  assumes "word_char (hd key)"
  shows "is_word prev \<Longrightarrow> list_all word_char xs \<Longrightarrow>
     replace_all (word_match key rep) prev 0 (xs @ rest)
       = xs @ replace_all (word_match key rep) (last_or prev xs) 0 rest"
proof (induction xs arbitrary: prev)
  case Nil
  then show ?case by (simp add: last_or_def)
next
  case (Cons c xs)
  from Cons.prems(1) assms have "word_match key rep prev ((c # xs) @ rest) = None"
    by (simp add: word_match_def)
  moreover from Cons.prems(2) have "is_word (Some c)" by (simp add: is_word_def)
  ultimately show ?case using Cons.IH [of "Some c"] Cons.prems(2)
    by (simp add: last_or_def)
qed

lemma copy_non_word:
  assumes "key \<noteq> []" "word_char (hd key)"
  shows "list_all (\<lambda>c. \<not> word_char c) xs \<Longrightarrow>
     replace_all (word_match key rep) prev 0 (xs @ rest)
       = xs @ replace_all (word_match key rep) (last_or prev xs) 0 rest"
proof (induction xs arbitrary: prev)
  case Nil
  then show ?case by (simp add: last_or_def)
next
  case (Cons c xs)
  from Cons.prems assms have "hd key \<noteq> c" by auto
  with assms(1) have "\<not> starts_with key ((c # xs) @ rest)"
    by (cases key) (auto simp: starts_with_def)
  then have "word_match key rep prev ((c # xs) @ rest) = None"
    by (simp add: word_match_def)
  then show ?case using Cons.IH [of "Some c"] Cons.prems
    by (simp add: last_or_def)
qed


lemma word_token_match:
  assumes key: "key \<noteq> []" "list_all word_char key"
      and prev: "\<not> is_word prev"
      and rest: "rest = [] \<or> \<not> word_char (hd rest)"
  shows "word_match key rep prev (key @ rest) = Some (rep, length key)"
proof -
  from key have h: "word_char (hd key)" and l: "word_char (last key)"
    by (auto simp: list_all_iff)
  have "char_at (key @ rest) (length key) = (if rest = [] then None else Some (hd rest))"
    by (cases rest) (auto simp: char_at_def)
  with rest have "\<not> is_word (char_at (key @ rest) (length key))"
    by (auto simp: is_word_def)
  with key(1) h l prev show ?thesis
    by (simp add: word_match_def starts_with_def)
qed

lemma word_token_no_match:
  assumes key: "list_all word_char key"
      and t: "list_all word_char t" "t \<noteq> key"
      and rest: "rest = [] \<or> \<not> word_char (hd rest)"
  shows "word_match key rep prev (t @ rest) = None"
proof (cases "key \<noteq> [] \<and> starts_with key (t @ rest)")
  case False
  then show ?thesis by (auto simp: word_match_def)
next
  case True
  then have k: "key \<noteq> []" and sw: "take (length key) (t @ rest) = key"
    by (auto simp: starts_with_def)
  have le: "length key \<le> length t"
  proof (rule ccontr)
    assume "\<not> length key \<le> length t"
    then have gt: "length t < length key" by simp
    from sw gt have eq: "key = t @ take (length key - length t) rest" by simp
    show False
    proof (cases rest)
      case Nil
      with eq t(2) show False by simp
    next
      case (Cons r rs)
      with eq gt have "r \<in> set key"
        by (cases "length key - length t") auto
      with key have "word_char r" by (auto simp: list_all_iff)
      with rest Cons show False by simp
    qed
  qed
  with sw have pre: "take (length key) t = key" by simp
  with t(2) le have lt: "length key < length t"
    by (cases "length key = length t") auto
  then have "char_at (t @ rest) (length key) = Some (t ! length key)"
    by (simp add: char_at_def nth_append)
  moreover from lt t(1) have "word_char (t ! length key)" by (auto simp: list_all_length)
  moreover from key k have "word_char (last key)" by (auto simp: list_all_iff)
  ultimately show ?thesis by (simp add: word_match_def is_word_def)
qed

lemma word_token:
  assumes key: "key \<noteq> []" "list_all word_char key"
      and t: "t \<noteq> []" "list_all word_char t"
      and prev: "\<not> is_word prev"
      and rest: "rest = [] \<or> \<not> word_char (hd rest)"
  shows "replace_all (word_match key rep) prev 0 (t @ rest)
       = (if t = key then rep else t) @ replace_all (word_match key rep) (Some (last t)) 0 rest"
proof -
  from t(1) obtain c t' where ct: "t = c # t'" by (cases t) auto
  from key have h: "word_char (hd key)" by (auto simp: list_all_iff)
  show ?thesis
  proof (cases "t = key")
    case True
    have "replace_all (word_match t rep) prev 0 (t @ rest)
        = rep @ replace_all (word_match t rep) (Some (last t)) 0 rest"
    proof -
      from word_token_match [OF t prev rest, of rep]
      have m: "word_match (c # t') rep prev (c # t' @ rest) = Some (rep, Suc (length t'))"
        by (simp add: ct)
      have "replace_all (word_match (c # t') rep) prev 0 ((c # t') @ rest)
          = rep @ replace_all (word_match (c # t') rep) (Some c) (length t') (t' @ rest)"
        using m by simp
      also have "\<dots> = rep @ replace_all (word_match (c # t') rep) (last_or (Some c) t') 0 rest"
        by (simp only: replace_all_skip)
      also have "last_or (Some c) t' = Some (last (c # t'))" by (simp add: last_or_def)
      finally show ?thesis by (simp only: ct)
    qed
    with True show ?thesis by simp
  next
    case False
    from word_token_no_match [OF key(2) t(2) False rest, of rep prev]
    have m: "word_match key rep prev (c # t' @ rest) = None" by (simp add: ct)
    from t(2) ct have w: "is_word (Some c)" "list_all word_char t'" by (auto simp: is_word_def)
    have "replace_all (word_match key rep) prev 0 ((c # t') @ rest)
        = c # replace_all (word_match key rep) (Some c) 0 (t' @ rest)"
      using m by simp
    also have "\<dots> = c # t' @ replace_all (word_match key rep) (last_or (Some c) t') 0 rest"
      using copy_inside_word [OF h w, of rep rest] by simp
    also have "last_or (Some c) t' = Some (last (c # t'))" by (simp add: last_or_def)
    finally have "replace_all (word_match key rep) prev 0 (t @ rest)
        = t @ replace_all (word_match key rep) (Some (last t)) 0 rest" by (simp only: ct append_Cons)
    with False show ?thesis by simp
  qed
qed

definition plain_token :: "string \<Rightarrow> bool" where
  "plain_token t = (list_all word_char t \<or> list_all (\<lambda>c. \<not> word_char c) t)"

lemma plain_token_step:
  assumes key: "key \<noteq> []" "list_all word_char key"
      and t: "plain_token t"
      and prev: "\<not> is_word prev"
      and rest: "rest = [] \<or> \<not> word_char (hd rest)"
  shows "\<exists>p. replace_all (word_match key rep) prev 0 (t @ rest)
       = (if t = key then rep else t) @ replace_all (word_match key rep) p 0 rest"
proof (cases "t \<noteq> [] \<and> list_all word_char t")
  case True
  with word_token [OF key _ _ prev rest, of t rep] show ?thesis by blast
next
  case False
  with t have nw: "list_all (\<lambda>c. \<not> word_char c) t" by (auto simp: plain_token_def)
  from key have h: "word_char (hd key)" by (auto simp: list_all_iff)
  from nw key have "t \<noteq> key" by (cases key) (auto simp: list_all_iff)
  with copy_non_word [OF key(1) h nw, of rep prev rest] show ?thesis by auto
qed

lemma replace_word_join:
  assumes key: "key \<noteq> []" "list_all word_char key"
  shows "list_all plain_token tokens \<Longrightarrow> \<not> is_word prev \<Longrightarrow>
     replace_all (word_match key rep) prev 0 (join tokens)
       = join (map (\<lambda>t. if t = key then rep else t) tokens)"
proof (induction tokens arbitrary: prev rule: join.induct)
  case 1
  then show ?case by simp
next
  case (2 t)
  from plain_token_step [OF key _ "2.prems"(2), of t "[]" rep] "2.prems"(1)
  show ?case by auto
next
  case (3 t u ts)
  let ?m = "word_match key rep"
  let ?rest = "'' '' @ join (u # ts)"
  have sp: "\<not> word_char (CHR '' '')" by (simp add: word_char_def)
  from plain_token_step [OF key _ "3.prems"(2), of t ?rest rep] "3.prems"(1) sp
  obtain p where s1: "replace_all ?m prev 0 (t @ ?rest)
      = (if t = key then rep else t) @ replace_all ?m p 0 ?rest" by auto
  from key have h: "word_char (hd key)" by (auto simp: list_all_iff)
  from copy_non_word [OF key(1) h, of "'' ''" rep p "join (u # ts)"] sp
  have s2: "replace_all ?m p 0 ?rest = '' '' @ replace_all ?m (Some (CHR '' '')) 0 (join (u # ts))"
    by (simp add: last_or_def)
  from sp have "\<not> is_word (Some (CHR '' ''))" by (simp add: is_word_def)
  with "3.IH" [of "Some (CHR '' '')"] "3.prems"(1)
  have s3: "replace_all ?m (Some (CHR '' '')) 0 (join (u # ts))
      = join (map (\<lambda>t. if t = key then rep else t) (u # ts))" by simp
  from s1 s2 s3 show ?case by simp
qed

lemma word_char_not_syntax: "regexp_syntax_char c \<Longrightarrow> \<not> word_char c"
  unfolding regexp_syntax_char_def by (elim insertE emptyE) (simp_all add: word_char_def)

text \<open>
  C7, amended. Take a variable whose name consists of word characters (letters, digits,
  underscore) and whose value prints without a dollar sign, and an expression whose tokens each
  consist of word characters only or of non-word characters only. Substituting the variable in
  the space-joined text replaces exactly the tokens equal to the name, and nothing else: a name
  that is a proper part of a longer such token (\<open>a\<close> in \<open>apple\<close>) is never replaced.
\<close>

theorem variable_substitution_whole_tokens:
  assumes "key \<noteq> []" and "list_all word_char key"
      and "CHR ''$'' \<notin> set (to_string H v)"
      and "list_all plain_token tokens"
  shows "replace_var H key v (join tokens)
       = Normal (join (map (\<lambda>t. if t = key then to_string H v else t) tokens))"
proof -
  from assms(2) have "\<not> list_ex regexp_syntax_char key"
    by (auto simp: list_all_iff list_ex_iff dest: word_char_not_syntax)
  with assms(1,3) have "replace_var H key v (join tokens)
      = Normal (replace_word key (to_string H v) (join tokens))"
    by (simp add: replace_var_def Let_def)
  also have "replace_word key (to_string H v) (join tokens)
      = join (map (\<lambda>t. if t = key then to_string H v else t) tokens)"
    unfolding replace_word_def
    using replace_word_join [OF assms(1,2) assms(4), of None "to_string H v"]
    by (simp add: is_word_def)
  finally show ?thesis .
qed

theorem variable_substitution_whole_tokens_witness:
  "''a'' \<noteq> [] \<and> list_all word_char ''a''
   \<and> CHR ''$'' \<notin> set (to_string sample_host (VNum (Fin 5)))
   \<and> list_all plain_token [''apple'', ''+'', ''a'', ''*'', ''('', ''a1'', '')'']
   \<and> replace_var sample_host ''a'' (VNum (Fin 5)) ''apple + a * ( a1 )''
       = Normal ''apple + 5 * ( a1 )''"
proof -
  have a: "list_all word_char ''a''" by (simp add: word_char_def)
  have b: "CHR ''$'' \<notin> set (to_string sample_host (VNum (Fin 5)))"
    by (simp add: sample_host_def sample_number_to_string_def show_nat.simps)
  have c: "list_all plain_token [''apple'', ''+'', ''a'', ''*'', ''('', ''a1'', '')'']"
    by (simp add: plain_token_def word_char_def)
  have d: "to_string sample_host (VNum (Fin 5)) = ''5''"
    by (simp add: sample_host_def sample_number_to_string_def show_nat.simps)
  from variable_substitution_whole_tokens [OF _ a b c] a b c d
  show ?thesis by simp
qed


end
